(* ===== verification/Prelude.thy ===== *)
theory Prelude
  imports Main "HOL-Library.AList"
begin

text \<open>
  Shared vocabulary of the clone-serve model.
  \<^item> \<open>imap\<close>: an \<^verbatim>\<open>Immutable.Map\<close> with insertion order, as an association list
    whose keys are kept distinct. \<^verbatim>\<open>get\<close>, \<^verbatim>\<open>set\<close>, \<^verbatim>\<open>delete\<close> and
    \<^verbatim>\<open>keySeq\<close> are \<open>map_of\<close>, \<open>AList.update\<close>, \<open>AList.delete\<close> and \<open>map fst\<close>;
    \<^verbatim>\<open>set\<close> on a present key keeps its position, a new key goes last, as the
    library does for small maps. \<open>imap_equals_by\<close> is \<^verbatim>\<open>Map.equals\<close> (same size,
    every entry of one found in the other under the given value equality).
  \<^item> \<open>status\<close>: every repository status string the sources use.
  \<^item> the reducer-table dispatch: \<^verbatim>\<open>Object.keys(reducers).reduce(...)\<close> is a fold over
    the table's entries; \<open>dispatch_fold_eq\<close> shows that it calls exactly the reducer the
    action's type names, once, when the names are distinct.
\<close>

type_synonym sid = string
type_synonym url = string
type_synonym slug = string
type_synonym timer = nat
type_synonym ('k, 'v) imap = "('k \<times> 'v) list"

abbreviation imap_get :: "('k, 'v) imap \<Rightarrow> 'k \<Rightarrow> 'v option" where
  "imap_get m k \<equiv> map_of m k"

abbreviation imap_set :: "'k \<Rightarrow> 'v \<Rightarrow> ('k, 'v) imap \<Rightarrow> ('k, 'v) imap" where
  "imap_set k v m \<equiv> AList.update k v m"

abbreviation imap_delete :: "'k \<Rightarrow> ('k, 'v) imap \<Rightarrow> ('k, 'v) imap" where
  "imap_delete k m \<equiv> AList.delete k m"

abbreviation imap_keys :: "('k, 'v) imap \<Rightarrow> 'k list" where
  "imap_keys m \<equiv> map fst m"

abbreviation imap_wf :: "('k, 'v) imap \<Rightarrow> bool" where
  "imap_wf m \<equiv> distinct (map fst m)"

definition imap_equals_by :: "('v \<Rightarrow> 'v \<Rightarrow> bool) \<Rightarrow> ('k, 'v) imap \<Rightarrow> ('k, 'v) imap \<Rightarrow> bool" where
  "imap_equals_by eq m1 m2 \<longleftrightarrow>
     length m1 = length m2 \<and>
     list_all (\<lambda>(k, v). case map_of m2 k of None \<Rightarrow> False | Some v' \<Rightarrow> eq v v') m1"

definition imap_all :: "('v \<Rightarrow> bool) \<Rightarrow> ('k, 'v) imap \<Rightarrow> bool" where
  "imap_all P m \<longleftrightarrow> list_all (\<lambda>(_, v). P v) m"

datatype status = Start | InProgress | Cloning | CloneDone | Done | Failed | Invalid

fun status_name :: "status \<Rightarrow> string" where
  "status_name Start = ''start''"
| "status_name InProgress = ''in_progress''"
| "status_name Cloning = ''cloning''"
| "status_name CloneDone = ''clone_done''"
| "status_name Done = ''done''"
| "status_name Failed = ''failed''"
| "status_name Invalid = ''invalid''"

definition dispatch_fold ::
  "string \<Rightarrow> 'v \<Rightarrow> (string \<times> ('s \<Rightarrow> 'v \<Rightarrow> 's)) list \<Rightarrow> 's \<Rightarrow> 's" where
  "dispatch_fold t v rs s = foldl (\<lambda>s (name, f). if name = t then f s v else s) s rs"

named_theorems imap_simps "lookup and update facts of the Immutable.Map model"

lemma imap_get_set [imap_simps]:
  "imap_get (imap_set k v m) k' = (if k' = k then Some v else imap_get m k')"
  by (simp add: update_conv')

lemma imap_get_delete [imap_simps]:
  "imap_get (imap_delete k m) k' = (if k' = k then None else imap_get m k')"
  by (simp add: delete_conv')

lemma imap_wf_set [imap_simps]: "imap_wf m \<Longrightarrow> imap_wf (imap_set k v m)"
  by (rule distinct_update)

lemma imap_wf_delete [imap_simps]: "imap_wf m \<Longrightarrow> imap_wf (imap_delete k m)"
  by (rule distinct_delete)

lemma imap_set_same [imap_simps]: "imap_get m k = Some v \<Longrightarrow> imap_set k v m = m"
  by (rule update_triv)

lemma imap_keys_set: "set (imap_keys (imap_set k v m)) = insert k (set (imap_keys m))"
  by (metis dom_update insert_is_Un set_map)

lemma imap_keys_delete: "set (imap_keys (imap_delete k m)) = set (imap_keys m) - {k}"
  by (simp add: delete_keys)

lemma imap_all_Nil [simp]: "imap_all P []"
  by (simp add: imap_all_def)

lemma imap_all_set:
  "imap_all P m \<Longrightarrow> P v \<Longrightarrow> imap_all P (imap_set k v m)"
  by (induction m) (auto simp: imap_all_def)

lemma imap_all_delete:
  "imap_all P m \<Longrightarrow> imap_all P (imap_delete k m)"
  by (induction m) (auto simp: imap_all_def)

lemma imap_all_get:
  "imap_all P m \<Longrightarrow> imap_get m k = Some v \<Longrightarrow> P v"
  by (induction m) (auto simp: imap_all_def split: if_splits)

lemma imap_values_delete: "snd ` set (imap_delete k m) \<subseteq> snd ` set m"
  by (induction m) auto

lemma imap_get_value: "imap_get m k = Some v \<Longrightarrow> v \<in> snd ` set m"
  by (metis map_of_SomeD image_iff snd_conv)

lemma map_vals_update:
  "map (\<lambda>(k, b). (k, f b)) (AList.update i a xs) = AList.update i (f a) (map (\<lambda>(k, b). (k, f b)) xs)"
  by (induction xs) auto

lemma map_vals_delete:
  "map (\<lambda>(k, b). (k, f b)) (AList.delete j xs) = AList.delete j (map (\<lambda>(k, b). (k, f b)) xs)"
  by (induction xs) auto

lemma map_vals_cong:
  "\<forall>(k, b) \<in> set xs. f' b = f b \<Longrightarrow>
   map (\<lambda>(k, b). (k, f' b)) xs = map (\<lambda>(k, b). (k, f b)) xs"
  by (induction xs) auto

lemma update_map_vals_cong:
  "imap_wf xs \<Longrightarrow> \<forall>(k, b) \<in> set xs. k \<noteq> i \<longrightarrow> f' b = f b \<Longrightarrow>
   AList.update i v (map (\<lambda>(k, b). (k, f' b)) xs) = AList.update i v (map (\<lambda>(k, b). (k, f b)) xs)"
proof (induction xs)
  case Nil
  then show ?case by simp
next
  case (Cons x xs)
  obtain k b where x: "x = (k, b)" by (cases x)
  show ?case
  proof (cases "k = i")
    case True
    from Cons.prems(1) x True have "\<forall>(k', b') \<in> set xs. k' \<noteq> i"
      by force
    with Cons.prems(2) have "\<forall>(k, b) \<in> set xs. f' b = f b"
      by auto
    with True x show ?thesis by (simp add: map_vals_cong)
  next
    case False
    with Cons x show ?thesis by simp
  qed
qed

lemma distinct_vals_other:
  "imap_wf xs \<Longrightarrow> distinct (map snd xs) \<Longrightarrow> map_of xs i = Some a \<Longrightarrow>
   \<forall>(k, b) \<in> set xs. k \<noteq> i \<longrightarrow> b \<noteq> a"
  by (induction xs) (fastforce split: if_splits dest: map_of_SomeD simp: image_iff)+

lemma distinct_vals_delete:
  "distinct (map snd xs) \<Longrightarrow> distinct (map snd (AList.delete j xs))"
  by (simp add: AList.delete_eq distinct_map_filter)

lemma update_absent: "map_of xs i = None \<Longrightarrow> AList.update i a xs = xs @ [(i, a)]"
  by (induction xs) (auto split: if_splits)

lemma distinct_vals_update_fresh:
  "distinct (map snd xs) \<Longrightarrow> a \<notin> snd ` set xs \<Longrightarrow> map_of xs i = None \<Longrightarrow>
   distinct (map snd (AList.update i a xs))"
  by (simp add: update_absent)

lemma imap_set_eq_self: "imap_set k v m = m \<longleftrightarrow> imap_get m k = Some v"
  by (metis imap_get_set imap_set_same)

lemma imap_equals_by_refl:
  assumes "\<And>v. eq v v" and "imap_wf m"
  shows "imap_equals_by eq m m"
proof -
  have "\<forall>(k, v) \<in> set m. map_of m k = Some v"
    using assms(2) by auto
  then show ?thesis
    using assms(1) by (auto simp: imap_equals_by_def list_all_iff)
qed

lemma imap_equals_eq_iff:
  assumes "imap_wf m1" and "imap_wf m2"
  shows "imap_equals_by (=) m1 m2 \<longleftrightarrow> map_of m1 = map_of m2"
proof
  assume eq: "imap_equals_by (=) m1 m2"
  then have sub: "\<And>k v. (k, v) \<in> set m1 \<Longrightarrow> map_of m2 k = Some v"
    by (fastforce simp: imap_equals_by_def list_all_iff split: option.splits)
  then have "map_of m1 \<subseteq>\<^sub>m map_of m2"
    by (force simp: map_le_def dest: map_of_SomeD sub)
  moreover have "card (dom (map_of m1)) = card (dom (map_of m2))"
    using eq assms unfolding imap_equals_by_def dom_map_of_conv_image_fst
    by (metis distinct_card length_map set_map)
  ultimately have le: "map_of m1 \<subseteq>\<^sub>m map_of m2" and "dom (map_of m1) = dom (map_of m2)"
    by (simp_all add: card_subset_eq finite_dom_map_of map_le_implies_dom_le)
  then show "map_of m1 = map_of m2"
    by (metis map_le_antisym map_le_def)
next
  assume eq: "map_of m1 = map_of m2"
  then have "length m1 = length m2"
    using assms by (metis distinct_card dom_map_of_conv_image_fst length_map set_map)
  moreover have "\<forall>(k, v) \<in> set m1. map_of m2 k = Some v"
    using assms(1) eq by (metis (mono_tags, lifting) case_prodI2 map_of_is_SomeI)
  ultimately show "imap_equals_by (=) m1 m2"
    by (auto simp: imap_equals_by_def list_all_iff)
qed

lemma list_all_update: "list_all P xs \<Longrightarrow> P (k, v) \<Longrightarrow> list_all P (AList.update k v xs)"
  by (induction xs) auto

lemma list_all_delete: "list_all P xs \<Longrightarrow> list_all P (AList.delete k xs)"
  by (simp add: AList.delete_eq list_all_iff)

lemma list_all_get: "list_all (\<lambda>(k, v). Q k v) xs \<Longrightarrow> map_of xs k = Some v \<Longrightarrow> Q k v"
  by (induction xs) (auto split: if_splits)

lemma list_all_concat_map:
  "(\<And>x. x \<in> set xs \<Longrightarrow> list_all P (f x)) \<Longrightarrow> list_all P (concat (map f xs))"
  by (induction xs) auto

lemma dispatch_fold_eq:
  assumes "distinct (map fst rs)"
  shows "dispatch_fold t v rs s = (case map_of rs t of None \<Rightarrow> s | Some f \<Rightarrow> f s v)"
  using assms
proof (induction rs arbitrary: s)
  case Nil
  then show ?case by (simp add: dispatch_fold_def)
next
  case (Cons r rs)
  obtain n f where r: "r = (n, f)" by (cases r)
  show ?case
  proof (cases "n = t")
    case True
    with Cons.prems r have "map_of rs t = None"
      by (simp add: map_of_eq_None_iff)
    with Cons.IH [of "f s v"] Cons.prems r True show ?thesis
      by (simp add: dispatch_fold_def)
  next
    case False
    with Cons.IH [of s] Cons.prems r show ?thesis
      by (simp add: dispatch_fold_def)
  qed
qed

end
