(* ===== verification/Reducer_Src.thy ===== *)
theory Reducer_Src
  imports Prelude
begin

text \<open>
  Model of \<^verbatim>\<open>src/src/reducers.js\<close>, the Flow source of the reducer. A session is
  \<^verbatim>\<open>Immutable.Map({repos})\<close> mapping an action value to a bare status string; the
  state is \<^verbatim>\<open>Immutable.Map({sessions})\<close>. An action is \<^verbatim>\<open>{type, session_id, value}\<close>
  where \<^verbatim>\<open>session_id\<close> and \<^verbatim>\<open>value\<close> may be \<^verbatim>\<open>undefined\<close> (\<open>None\<close>); a
  \<^verbatim>\<open>startClone\<close> without a value stores the key \<^verbatim>\<open>undefined\<close>, so repository keys
  are \<open>string option\<close>. The reducer tables \<^verbatim>\<open>sessionReducers\<close> and
  \<^verbatim>\<open>stateReducers\<close> are association lists and the \<^verbatim>\<open>Object.keys(..).reduce\<close>
  dispatch is \<open>dispatch_fold\<close>.
\<close>

record src_session =
  src_repos :: "(string option, status) imap"

record src_state =
  src_sessions :: "(sid, src_session) imap"

record src_action =
  src_type :: string
  src_session_id :: "sid option"
  src_value :: "string option"

definition src_initial_state :: src_state where
  "src_initial_state = \<lparr>src_sessions = []\<rparr>"

definition src_empty_session :: src_session where
  "src_empty_session = \<lparr>src_repos = []\<rparr>"

definition src_startClone :: "src_session \<Rightarrow> string option \<Rightarrow> src_session" where
  "src_startClone session u =
     (let status = imap_get (src_repos session) u
      in if status = None \<or> status = Some Done
         then session\<lparr>src_repos := imap_set u Start (src_repos session)\<rparr>
         else session)"

definition src_registerStarted :: "src_session \<Rightarrow> string option \<Rightarrow> src_session" where
  "src_registerStarted session u =
     (let status = imap_get (src_repos session) u
      in if status = Some Start
         then session\<lparr>src_repos := imap_set u InProgress (src_repos session)\<rparr>
         else session)"

definition src_sessionReducers :: "(string \<times> (src_session \<Rightarrow> string option \<Rightarrow> src_session)) list" where
  "src_sessionReducers = [(''startClone'', src_startClone), (''registerStarted'', src_registerStarted)]"

definition src_removeSession :: "src_state \<Rightarrow> string option \<Rightarrow> src_state" where
  "src_removeSession state v =
     (case v of None \<Rightarrow> state
      | Some i \<Rightarrow> state\<lparr>src_sessions := imap_delete i (src_sessions state)\<rparr>)"

definition src_stateReducers :: "(string \<times> (src_state \<Rightarrow> string option \<Rightarrow> src_state)) list" where
  "src_stateReducers = [(''removeSession'', src_removeSession)]"

definition src_reduceSessions :: "(sid, src_session) imap \<Rightarrow> src_action \<Rightarrow> (sid, src_session) imap" where
  "src_reduceSessions sessions action =
     (case src_session_id action of
        None \<Rightarrow> sessions
      | Some i \<Rightarrow>
          (let session = (case imap_get sessions i of None \<Rightarrow> src_empty_session | Some s \<Rightarrow> s);
               session' = dispatch_fold (src_type action) (src_value action) src_sessionReducers session
           in imap_set i session' sessions))"

definition src_reduceState :: "src_state \<Rightarrow> src_action \<Rightarrow> src_state" where
  "src_reduceState state action =
     dispatch_fold (src_type action) (src_value action) src_stateReducers state"

definition src_mainReducer :: "src_state option \<Rightarrow> src_action \<Rightarrow> src_state" where
  "src_mainReducer state action =
     (let state = (case state of None \<Rightarrow> src_initial_state | Some s \<Rightarrow> s);
          state = state\<lparr>src_sessions := src_reduceSessions (src_sessions state) action\<rparr>
      in src_reduceState state action)"

text \<open>
  A reference reducer written as a case distinction on the action type: what the
  table-driven code means. \<open>src_reduce_ref\<close> shows the two agree.
\<close>

definition src_session_step :: "string \<Rightarrow> src_session \<Rightarrow> string option \<Rightarrow> src_session" where
  "src_session_step t s v =
     (if t = ''startClone'' then src_startClone s v
      else if t = ''registerStarted'' then src_registerStarted s v
      else s)"

definition src_reference :: "src_state \<Rightarrow> src_action \<Rightarrow> src_state" where
  "src_reference st a =
     (let ss = (case src_session_id a of
                  None \<Rightarrow> src_sessions st
                | Some i \<Rightarrow> imap_set i
                    (src_session_step (src_type a)
                       (case imap_get (src_sessions st) i of None \<Rightarrow> src_empty_session | Some s \<Rightarrow> s)
                       (src_value a))
                    (src_sessions st))
      in if src_type a = ''removeSession''
         then src_removeSession (st\<lparr>src_sessions := ss\<rparr>) (src_value a)
         else st\<lparr>src_sessions := ss\<rparr>)"

definition src_inv :: "src_state \<Rightarrow> bool" where
  "src_inv st \<longleftrightarrow> imap_wf (src_sessions st) \<and>
     imap_all (\<lambda>s. imap_wf (src_repos s)) (src_sessions st)"

text \<open>The status a reader of the state sees for a session and a repository key.\<close>

definition src_status :: "src_state \<Rightarrow> sid \<Rightarrow> string option \<Rightarrow> status option" where
  "src_status st i u =
     (case imap_get (src_sessions st) i of None \<Rightarrow> None | Some s \<Rightarrow> imap_get (src_repos s) u)"

text \<open>
  The abstract specification of this reducer, written from the spec (sections 4.2 and 6)
  and independent of the reducer table: a state is a partial function from session ids to
  partial functions from repository keys to statuses. An action with a session id acts
  on that session, created empty when unknown: \<^verbatim>\<open>startClone\<close> sets an absent or
  \<^verbatim>\<open>done\<close> key to \<^verbatim>\<open>start\<close>, \<^verbatim>\<open>registerStarted\<close> moves \<^verbatim>\<open>start\<close> to
  \<^verbatim>\<open>in_progress\<close>; then \<^verbatim>\<open>removeSession\<close> deletes the session its value names.
\<close>

type_synonym src_abs_state = "sid \<Rightarrow> (string option \<Rightarrow> status option) option"

definition src_abs :: "src_state \<Rightarrow> src_abs_state" where
  "src_abs st = (\<lambda>i. map_option (\<lambda>s. map_of (src_repos s)) (map_of (src_sessions st) i))"

definition src_spec_session :: "string \<Rightarrow> string option \<Rightarrow> (string option \<Rightarrow> status option) \<Rightarrow>
    (string option \<Rightarrow> status option)" where
  "src_spec_session t v m =
     (if t = ''startClone'' \<and> (m v = None \<or> m v = Some Done) then m(v \<mapsto> Start)
      else if t = ''registerStarted'' \<and> m v = Some Start then m(v \<mapsto> InProgress)
      else m)"

definition src_spec :: "src_abs_state \<Rightarrow> src_action \<Rightarrow> src_abs_state" where
  "src_spec S a =
     (let S' = (case src_session_id a of
                  None \<Rightarrow> S
                | Some i \<Rightarrow> S(i \<mapsto> src_spec_session (src_type a) (src_value a)
                                (case S i of None \<Rightarrow> (\<lambda>_. None) | Some m \<Rightarrow> m)))
      in if src_type a = ''removeSession''
         then (case src_value a of None \<Rightarrow> S' | Some j \<Rightarrow> S'(j := None))
         else S')"

text \<open>
  The states the reducer alone reaches from its initial state, one action after another
  (redux's first call passes \<^verbatim>\<open>undefined\<close>, which \<^verbatim>\<open>mainReducer\<close> replaces by
  \<^verbatim>\<open>initial_state\<close>).
\<close>

definition src_run :: "src_action list \<Rightarrow> src_state" where
  "src_run as = foldl (\<lambda>st a. src_mainReducer (Some st) a) src_initial_state as"

text \<open>Only \<^verbatim>\<open>start\<close> and \<^verbatim>\<open>in_progress\<close> are ever stored by the specification.\<close>

definition src_spec_inv :: "src_abs_state \<Rightarrow> bool" where
  "src_spec_inv S \<longleftrightarrow> (\<forall>i m v x. S i = Some m \<longrightarrow> m v = Some x \<longrightarrow> x = Start \<or> x = InProgress)"

lemma src_state_update_eq: "(r::src_state)\<lparr>src_sessions := x\<rparr> = \<lparr>src_sessions = x\<rparr>"
  by (cases r) simp

lemma src_dispatch_sessions:
  "dispatch_fold t v src_sessionReducers s = src_session_step t s v"
  by (simp add: dispatch_fold_eq src_sessionReducers_def src_session_step_def)

lemma src_dispatch_state:
  "dispatch_fold t v src_stateReducers st = (if t = ''removeSession'' then src_removeSession st v else st)"
  by (simp add: dispatch_fold_eq src_stateReducers_def)

lemma src_session_step_wf:
  "imap_wf (src_repos s) \<Longrightarrow> imap_wf (src_repos (src_session_step t s v))"
  by (simp add: src_session_step_def src_startClone_def src_registerStarted_def Let_def imap_simps)

lemma src_removeSession_inv:
  "src_inv st \<Longrightarrow> src_inv (src_removeSession st v)"
  by (simp add: src_inv_def src_removeSession_def imap_wf_delete imap_all_delete split: option.splits)

lemma src_inv_initial: "src_inv src_initial_state"
  by (simp add: src_inv_def src_initial_state_def)

lemmas src_reducer_unfold = src_reference_def src_session_step_def src_startClone_def
  src_registerStarted_def src_removeSession_def src_empty_session_def Let_def

lemma src_reduce_ref: "src_mainReducer (Some st) a = src_reference st a"
  by (simp add: src_mainReducer_def src_reference_def src_reduceSessions_def src_reduceState_def
      src_dispatch_sessions src_dispatch_state split: option.splits)

subsection \<open>Properties of the reducer of src/reducers.js\<close>

lemma src_session_step_abs:
  "map_of (src_repos (src_session_step t s v)) = src_spec_session t v (map_of (src_repos s))"
  by (auto simp: src_session_step_def src_startClone_def src_registerStarted_def src_spec_session_def
      Let_def imap_simps)

lemma src_abs_step: "src_abs (src_mainReducer (Some st) a) = src_spec (src_abs st) a"
proof -
  have sess: "map_of (src_repos (case imap_get (src_sessions st) i of None \<Rightarrow> src_empty_session | Some s \<Rightarrow> s)) =
      (case src_abs st i of None \<Rightarrow> (\<lambda>_. None) | Some m \<Rightarrow> m)" for i
    by (simp add: src_abs_def src_empty_session_def split: option.splits)
  show ?thesis
    by (rule ext)
       (auto simp: src_reduce_ref src_reference_def src_spec_def src_abs_def src_removeSession_def
          src_session_step_abs sess [unfolded src_abs_def] Let_def imap_simps split: option.splits)
qed

text \<open>
  C1. \<^verbatim>\<open>mainReducer\<close> refines the abstract specification: read through the
  lookup functions of its \<^verbatim>\<open>Immutable.Map\<close>s, every action moves the state as the
  specification prescribes, on every state.
\<close>

theorem src_mainReducer_refines: "src_abs (src_mainReducer (Some st) a) = src_spec (src_abs st) a"
  by (rule src_abs_step)

text \<open>
  C2. A \<^verbatim>\<open>startClone\<close> for a key whose status is absent or \<^verbatim>\<open>done\<close> sets it to
  \<^verbatim>\<open>start\<close> (creating the session when it is unknown); any other status is kept.
\<close>

theorem src_startClone_status:
  "src_status (src_mainReducer (Some st)
      \<lparr>src_type = ''startClone'', src_session_id = Some i, src_value = u\<rparr>) i u =
   (if src_status st i u = None \<or> src_status st i u = Some Done then Some Start
    else src_status st i u)"
  by (auto simp: src_reduce_ref src_reducer_unfold src_status_def imap_simps
      split: option.splits)

text \<open>
  C3. Re-submitting a key that is \<^verbatim>\<open>start\<close>, \<^verbatim>\<open>in_progress\<close> or \<^verbatim>\<open>invalid\<close>
  in an existing session leaves the whole state unchanged: no second clone is requested.
\<close>

theorem src_startClone_idempotent:
  assumes "imap_get (src_sessions st) i = Some s"
    and "imap_get (src_repos s) u \<in> {Some Start, Some InProgress, Some Invalid}"
  shows "src_mainReducer (Some st) \<lparr>src_type = ''startClone'', src_session_id = Some i, src_value = u\<rparr> = st"
  using assms by (auto simp: src_reduce_ref src_reducer_unfold imap_simps)

theorem src_startClone_idempotent_witness:
  "src_mainReducer (Some \<lparr>src_sessions = [(''s1'', \<lparr>src_repos = [(Some ''u'', InProgress)]\<rparr>)]\<rparr>)
      \<lparr>src_type = ''startClone'', src_session_id = Some ''s1'', src_value = Some ''u''\<rparr> =
   \<lparr>src_sessions = [(''s1'', \<lparr>src_repos = [(Some ''u'', InProgress)]\<rparr>)]\<rparr>"
  by (rule src_startClone_idempotent [where s = "\<lparr>src_repos = [(Some ''u'', InProgress)]\<rparr>"]) simp_all

text \<open>
  C4. \<^verbatim>\<open>registerStarted\<close> moves a key from \<^verbatim>\<open>start\<close> to \<^verbatim>\<open>in_progress\<close>
  and leaves every other status as it is.
\<close>

theorem src_registerStarted_status:
  "src_status (src_mainReducer (Some st)
      \<lparr>src_type = ''registerStarted'', src_session_id = Some i, src_value = u\<rparr>) i u =
   (if src_status st i u = Some Start then Some InProgress else src_status st i u)"
  by (auto simp: src_reduce_ref src_reducer_unfold src_status_def imap_simps
      split: option.splits)

text \<open>
  \<^verbatim>\<open>removeSession\<close> with a value removes the session that the value names,
  whatever the action's \<^verbatim>\<open>session_id\<close>.
\<close>

theorem src_removeSession_removes:
  "imap_get (src_sessions (src_mainReducer (Some st)
      \<lparr>src_type = ''removeSession'', src_session_id = i, src_value = Some j\<rparr>)) j = None"
  by (simp add: src_reduce_ref src_reducer_unfold imap_simps)

text \<open>
  C6. \<^verbatim>\<open>removeSession(id)\<close> dispatched with no value does not remove the session
  in this reducer: the session-scoped pass first creates or keeps the session \<^verbatim>\<open>id\<close>
  and \<^verbatim>\<open>sessions.delete(undefined)\<close> then removes nothing.
\<close>

theorem src_removeSession_without_value_keeps:
  "imap_get (src_sessions (src_mainReducer (Some st)
      \<lparr>src_type = ''removeSession'', src_session_id = Some i, src_value = None\<rparr>)) i \<noteq> None"
  by (simp add: src_reduce_ref src_reducer_unfold imap_simps)

lemma src_abs_initial: "src_abs src_initial_state = (\<lambda>_. None)"
  by (simp add: src_abs_def src_initial_state_def)

lemma src_status_abs:
  "src_status st i u = (case src_abs st i of None \<Rightarrow> None | Some m \<Rightarrow> m u)"
  by (simp add: src_status_def src_abs_def split: option.splits)

lemma src_spec_inv_step: "src_spec_inv S \<Longrightarrow> src_spec_inv (src_spec S a)"
  by (auto simp: src_spec_inv_def src_spec_def src_spec_session_def Let_def split: option.splits if_splits)

text \<open>
  C7. The reducer of \<^verbatim>\<open>src/src/reducers.js\<close> alone only ever stores \<^verbatim>\<open>start\<close>
  and \<^verbatim>\<open>in_progress\<close>: in every state it reaches from its initial state, whatever the
  actions, each key is absent, \<^verbatim>\<open>start\<close> or \<^verbatim>\<open>in_progress\<close>. The \<^verbatim>\<open>done\<close>
  and \<^verbatim>\<open>invalid\<close> statuses of its \<^verbatim>\<open>RepoStatus\<close> type, and the re-clone branch of
  \<^verbatim>\<open>startClone\<close> for \<^verbatim>\<open>done\<close>, need a reducer that this file does not have.
\<close>

theorem src_run_statuses:
  "src_status (src_run as) i u \<in> {None, Some Start, Some InProgress}"
proof -
  have "src_spec_inv (src_abs (foldl (\<lambda>st a. src_mainReducer (Some st) a) st as))"
    if "src_spec_inv (src_abs st)" for st
    using that
  proof (induction as arbitrary: st)
    case (Cons a as)
    have "src_spec_inv (src_abs (src_mainReducer (Some st) a))"
      using src_spec_inv_step [OF Cons.prems] by (simp add: src_abs_step)
    then show ?case by (simp add: Cons.IH)
  qed simp
  moreover have "src_spec_inv (src_abs src_initial_state)"
    by (simp add: src_abs_initial src_spec_inv_def)
  ultimately have "src_spec_inv (src_abs (src_run as))" by (simp add: src_run_def)
  then show ?thesis
    by (cases "src_abs (src_run as) i") (auto simp: src_status_abs src_spec_inv_def)
qed

text \<open>
  C8. An action without a \<^verbatim>\<open>session_id\<close> is not ignored by this reducer: a
  \<^verbatim>\<open>removeSession\<close> carrying only a value still deletes the session it names, so
  the state changes.
\<close>

theorem src_no_session_id_removes:
  "imap_get (src_sessions st) j \<noteq> None \<Longrightarrow>
   src_mainReducer (Some st) \<lparr>src_type = ''removeSession'', src_session_id = None, src_value = Some j\<rparr> \<noteq> st \<and>
   imap_get (src_sessions (src_mainReducer (Some st)
      \<lparr>src_type = ''removeSession'', src_session_id = None, src_value = Some j\<rparr>)) j = None"
  by (auto simp: src_reduce_ref src_reducer_unfold imap_simps dest: arg_cong [where f = "\<lambda>st. imap_get (src_sessions st) j"])

theorem src_no_session_id_removes_witness:
  "imap_get [(''s1'', \<lparr>src_repos = []\<rparr>)] ''s1'' \<noteq> None \<and>
   src_mainReducer (Some \<lparr>src_sessions = [(''s1'', \<lparr>src_repos = []\<rparr>)]\<rparr>)
     \<lparr>src_type = ''removeSession'', src_session_id = None, src_value = Some ''s1''\<rparr> \<noteq>
   \<lparr>src_sessions = [(''s1'', \<lparr>src_repos = []\<rparr>)]\<rparr> \<and>
   imap_get (src_sessions (src_mainReducer (Some \<lparr>src_sessions = [(''s1'', \<lparr>src_repos = []\<rparr>)]\<rparr>)
     \<lparr>src_type = ''removeSession'', src_session_id = None, src_value = Some ''s1''\<rparr>)) ''s1'' = None"
  using src_no_session_id_removes [of "\<lparr>src_sessions = [(''s1'', \<lparr>src_repos = []\<rparr>)]\<rparr>" "''s1''"]
  by simp

end
