(* ===== verification/Reducer_Lib.thy ===== *)
theory Reducer_Lib
  imports Reducer_Src
begin

text \<open>
  Model of \<^verbatim>\<open>src/lib/reducers.js\<close>, the compiled reducer that the application in
  \<^verbatim>\<open>src/lib\<close> loads. Unlike the Flow source, a session is a plain JavaScript
  object \<^verbatim>\<open>{repos}\<close> stored by reference in the \<^verbatim>\<open>Immutable.Map\<close> of sessions, and
  \<^verbatim>\<open>startClone\<close> updates it in place with \<^verbatim>\<open>Object.assign\<close>. The model therefore
  has an explicit heap of session objects (\<open>lib_heap\<close>: a total store indexed by
  address, with the next free address); the state maps session ids to addresses, and a
  reducer takes and returns the heap. \<open>lib_read\<close> reads a state through a heap as the
  value-level state of \<open>Reducer_Src\<close>. Actions have the same shape as in
  \<open>Reducer_Src\<close> (\<open>src_action\<close>).
\<close>

type_synonym addr = nat

record lib_obj =
  lib_repos :: "(string option, status) imap"

record lib_heap =
  lib_objs :: "addr \<Rightarrow> lib_obj"
  lib_next :: addr

record lib_state =
  lib_sessions :: "(sid, addr) imap"

definition lib_initial_state :: lib_state where
  "lib_initial_state = \<lparr>lib_sessions = []\<rparr>"

definition lib_alloc :: "lib_heap \<Rightarrow> lib_obj \<Rightarrow> addr \<times> lib_heap" where
  "lib_alloc h obj =
     (lib_next h, h\<lparr>lib_objs := (lib_objs h)(lib_next h := obj), lib_next := Suc (lib_next h)\<rparr>)"

definition lib_startClone :: "lib_heap \<times> addr \<Rightarrow> string option \<Rightarrow> lib_heap \<times> addr" where
  "lib_startClone ha repo_folder =
     (let (h, session) = ha;
          repo = imap_get (lib_repos (lib_objs h session)) repo_folder
      in if repo = None \<or> repo = Some Done
         then (let repos = imap_set repo_folder Start (lib_repos (lib_objs h session))
               in (h\<lparr>lib_objs := (lib_objs h)(session := (lib_objs h session)\<lparr>lib_repos := repos\<rparr>)\<rparr>,
                   session))
         else (h, session))"

definition lib_sessionReducers ::
  "(string \<times> (lib_heap \<times> addr \<Rightarrow> string option \<Rightarrow> lib_heap \<times> addr)) list" where
  "lib_sessionReducers = [(''startClone'', lib_startClone)]"

definition lib_removeSession :: "lib_state \<Rightarrow> string option \<Rightarrow> lib_state" where
  "lib_removeSession state v =
     (case v of None \<Rightarrow> state
      | Some i \<Rightarrow> state\<lparr>lib_sessions := imap_delete i (lib_sessions state)\<rparr>)"

definition lib_stateReducers :: "(string \<times> (lib_state \<Rightarrow> string option \<Rightarrow> lib_state)) list" where
  "lib_stateReducers = [(''removeSession'', lib_removeSession)]"

definition lib_mainReducer :: "lib_heap \<Rightarrow> lib_state option \<Rightarrow> src_action \<Rightarrow> lib_heap \<times> lib_state" where
  "lib_mainReducer h state action =
     (let state = (case state of None \<Rightarrow> lib_initial_state | Some s \<Rightarrow> s)
      in case src_session_id action of
           None \<Rightarrow> (h, state)
         | Some i \<Rightarrow>
             (let (session, h) = (case imap_get (lib_sessions state) i of
                                   None \<Rightarrow> lib_alloc h \<lparr>lib_repos = []\<rparr>
                                 | Some a \<Rightarrow> (a, h));
                  (h, session) = dispatch_fold (src_type action) (src_value action)
                                   lib_sessionReducers (h, session);
                  state = state\<lparr>lib_sessions := imap_set i session (lib_sessions state)\<rparr>;
                  value = (case src_value action of None \<Rightarrow> Some i | Some v \<Rightarrow> Some v)
              in (h, dispatch_fold (src_type action) value lib_stateReducers state)))"

text \<open>Reading a state through a heap gives the value the state denotes.\<close>

definition lib_read :: "lib_heap \<Rightarrow> lib_state \<Rightarrow> src_state" where
  "lib_read h st =
     \<lparr>src_sessions = map (\<lambda>(k, a). (k, \<lparr>src_repos = lib_repos (lib_objs h a)\<rparr>)) (lib_sessions st)\<rparr>"

definition lib_view :: "lib_heap \<Rightarrow> addr \<Rightarrow> src_session" where
  "lib_view h b = \<lparr>src_repos = lib_repos (lib_objs h b)\<rparr>"

text \<open>
  Heap well-formedness: session keys distinct, every session address allocated, and no
  two sessions sharing one object.
\<close>

definition lib_inv :: "lib_heap \<Rightarrow> lib_state \<Rightarrow> bool" where
  "lib_inv h st \<longleftrightarrow> imap_wf (lib_sessions st) \<and> distinct (map snd (lib_sessions st)) \<and>
     (\<forall>a \<in> snd ` set (lib_sessions st). a < lib_next h)"

lemma lib_dispatch_sessions:
  "dispatch_fold t v lib_sessionReducers ha = (if t = ''startClone'' then lib_startClone ha v else ha)"
  by (simp add: dispatch_fold_eq lib_sessionReducers_def)

lemma lib_dispatch_state:
  "dispatch_fold t v lib_stateReducers st = (if t = ''removeSession'' then lib_removeSession st v else st)"
  by (simp add: dispatch_fold_eq lib_stateReducers_def)

lemma lib_read_view: "lib_read h st = \<lparr>src_sessions = map (\<lambda>(k, b). (k, lib_view h b)) (lib_sessions st)\<rparr>"
  by (simp add: lib_read_def lib_view_def)

lemma lib_read_get:
  "imap_get (src_sessions (lib_read h st)) i = map_option (lib_view h) (imap_get (lib_sessions st) i)"
  by (simp add: lib_read_view map_of_map)

lemma lib_startClone_frame:
  assumes "lib_startClone (h, b) v = (h1, b1)"
  shows "b1 = b \<and> (\<forall>c. c \<noteq> b \<longrightarrow> lib_objs h1 c = lib_objs h c) \<and> lib_next h1 = lib_next h \<and>
         lib_view h1 b = src_startClone (lib_view h b) v"
  using assms by (auto simp: lib_startClone_def src_startClone_def lib_view_def Let_def split: if_splits)

lemma lib_read_set:
  assumes "imap_wf (lib_sessions st)"
    and "\<forall>(k, b) \<in> set (lib_sessions st). k \<noteq> i \<longrightarrow> lib_objs h' b = lib_objs h b"
  shows "lib_read h' (st\<lparr>lib_sessions := imap_set i c (lib_sessions st)\<rparr>) =
         \<lparr>src_sessions = imap_set i (lib_view h' c) (src_sessions (lib_read h st))\<rparr>"
proof -
  have "\<forall>(k, b) \<in> set (lib_sessions st). k \<noteq> i \<longrightarrow> lib_view h' b = lib_view h b"
    using assms(2) by (auto simp: lib_view_def)
  with assms(1) show ?thesis
    by (simp add: lib_read_view map_vals_update update_map_vals_cong)
qed

lemma lib_read_remove:
  "lib_read h (lib_removeSession st v) = src_removeSession (lib_read h st) v"
  by (simp add: lib_read_view lib_removeSession_def src_removeSession_def map_vals_delete split: option.splits)

lemma lib_session_part:
  assumes "(h1, c1) = (if t = ''startClone'' then lib_startClone (h0, c) v else (h0, c))"
    and "t \<noteq> ''registerStarted''"
  shows "c1 = c \<and> (\<forall>d. d \<noteq> c \<longrightarrow> lib_objs h1 d = lib_objs h0 d) \<and>
         lib_view h1 c = src_session_step t (lib_view h0 c) v"
proof (cases "t = ''startClone''")
  case True
  with assms(1) lib_startClone_frame [of h0 c v h1 c1] show ?thesis
    by (simp add: src_session_step_def)
next
  case False
  with assms show ?thesis by (simp add: src_session_step_def)
qed

lemma lib_inv_remove: "lib_inv h st \<Longrightarrow> lib_inv h (lib_removeSession st v)"
proof -
  have "set (imap_delete k m) \<subseteq> set m" for k :: sid and m :: "(sid, addr) imap"
    by (auto simp: AList.delete_eq)
  then show "lib_inv h st \<Longrightarrow> lib_inv h (lib_removeSession st v)"
    by (fastforce simp: lib_inv_def lib_removeSession_def imap_wf_delete distinct_vals_delete
        split: option.splits)
qed

lemma lib_inv_set:
  assumes "lib_inv h st" and "imap_get (lib_sessions st) i = None \<longrightarrow> c \<notin> snd ` set (lib_sessions st)"
    and "imap_get (lib_sessions st) i \<noteq> None \<longrightarrow> imap_get (lib_sessions st) i = Some c"
    and "c < lib_next h'" and "lib_next h \<le> lib_next h'"
  shows "lib_inv h' (st\<lparr>lib_sessions := imap_set i c (lib_sessions st)\<rparr>)"
proof (cases "imap_get (lib_sessions st) i")
  case None
  with assms show ?thesis
    by (auto simp: lib_inv_def update_absent distinct_vals_update_fresh)
next
  case (Some b)
  with assms show ?thesis
    by (auto simp: lib_inv_def imap_set_same)
qed

subsection \<open>Properties of the reducer of src/lib/reducers.js\<close>

text \<open>
  C9. \<^verbatim>\<open>startClone\<close> on an existing session mutates the session object in place
  (\<^verbatim>\<open>Object.assign\<close>): the returned state is the very same value as the previous
  state (same session references), while the previous snapshot, read through the heap,
  has changed. Snapshots are not immutable, and a listener comparing the new state with
  the previous one by \<^verbatim>\<open>equals\<close> sees no change.
\<close>

theorem lib_startClone_mutates_snapshot:
  assumes "imap_get (lib_sessions st) i = Some a"
    and "imap_get (lib_repos (lib_objs h a)) (Some u) \<in> {None, Some Done}"
    and "lib_mainReducer h (Some st) \<lparr>src_type = ''startClone'', src_session_id = Some i, src_value = Some u\<rparr> = (h', st')"
  shows "st' = st \<and> lib_read h' st \<noteq> lib_read h st"
proof -
  let ?o = "(lib_objs h a)\<lparr>lib_repos := imap_set (Some u) Start (lib_repos (lib_objs h a))\<rparr>"
  have h': "h' = h\<lparr>lib_objs := (lib_objs h)(a := ?o)\<rparr>" and st': "st' = st"
    using assms by (auto simp: lib_mainReducer_def lib_dispatch_sessions lib_dispatch_state
        lib_startClone_def imap_set_same Let_def)
  have "imap_get (src_sessions (lib_read h' st)) i \<noteq> imap_get (src_sessions (lib_read h st)) i"
    using assms(1,2) by (auto simp: lib_read_get h' lib_view_def imap_set_eq_self
        dest: arg_cong [where f = "\<lambda>s. imap_get (src_repos s) (Some u)"])
  with st' show ?thesis by auto
qed

theorem lib_startClone_mutates_snapshot_witness:
  "\<exists>h' st'. lib_mainReducer \<lparr>lib_objs = (\<lambda>_. \<lparr>lib_repos = []\<rparr>), lib_next = 1\<rparr>
       (Some \<lparr>lib_sessions = [(''s1'', 0)]\<rparr>)
       \<lparr>src_type = ''startClone'', src_session_id = Some ''s1'', src_value = Some ''u''\<rparr> = (h', st') \<and>
     st' = \<lparr>lib_sessions = [(''s1'', 0)]\<rparr> \<and>
     lib_read h' \<lparr>lib_sessions = [(''s1'', 0)]\<rparr> \<noteq>
     lib_read \<lparr>lib_objs = (\<lambda>_. \<lparr>lib_repos = []\<rparr>), lib_next = 1\<rparr> \<lparr>lib_sessions = [(''s1'', 0)]\<rparr>"
proof -
  obtain h' st' where run: "lib_mainReducer \<lparr>lib_objs = (\<lambda>_. \<lparr>lib_repos = []\<rparr>), lib_next = 1\<rparr>
       (Some \<lparr>lib_sessions = [(''s1'', 0)]\<rparr>)
       \<lparr>src_type = ''startClone'', src_session_id = Some ''s1'', src_value = Some ''u''\<rparr> = (h', st')"
    by (metis surj_pair)
  have "st' = \<lparr>lib_sessions = [(''s1'', 0)]\<rparr> \<and>
     lib_read h' \<lparr>lib_sessions = [(''s1'', 0)]\<rparr> \<noteq>
     lib_read \<lparr>lib_objs = (\<lambda>_. \<lparr>lib_repos = []\<rparr>), lib_next = 1\<rparr> \<lparr>lib_sessions = [(''s1'', 0)]\<rparr>"
    by (rule lib_startClone_mutates_snapshot [OF _ _ run]) simp_all
  with run show ?thesis by blast
qed

text \<open>
  C10. Refinement: on a well-formed heap, for an action with a session id that is not
  \<^verbatim>\<open>registerStarted\<close> (absent from this reducer) and, for \<^verbatim>\<open>removeSession\<close>,
  carries a value, reading the new state through the new heap gives exactly what the
  Flow reducer computes from the old state read through the old heap.
\<close>

theorem lib_refines_src:
  assumes inv: "lib_inv h st" and sid: "src_session_id a = Some i"
    and ty: "src_type a \<noteq> ''registerStarted''"
    and val: "src_type a = ''removeSession'' \<longrightarrow> src_value a \<noteq> None"
    and run: "lib_mainReducer h (Some st) a = (h', st')"
  shows "lib_read h' st' = src_mainReducer (Some (lib_read h st)) a"
proof -
  let ?ss = "lib_sessions st"
  obtain c h0 where alloc: "(c, h0) = (case imap_get ?ss i of None \<Rightarrow> lib_alloc h \<lparr>lib_repos = []\<rparr> | Some b \<Rightarrow> (b, h))"
    by (metis surj_pair)
  obtain h1 c1 where ds: "dispatch_fold (src_type a) (src_value a) lib_sessionReducers (h0, c) = (h1, c1)"
    by (metis surj_pair)
  have part: "c1 = c \<and> (\<forall>d. d \<noteq> c \<longrightarrow> lib_objs h1 d = lib_objs h0 d) \<and>
      lib_view h1 c = src_session_step (src_type a) (lib_view h0 c) (src_value a)"
    using ds ty by (intro lib_session_part) (simp_all add: lib_dispatch_sessions)
  have frame0: "\<forall>(k, b) \<in> set ?ss. k \<noteq> i \<longrightarrow> lib_objs h0 b = lib_objs h b \<and> b \<noteq> c"
  proof (cases "imap_get ?ss i")
    case None
    with alloc inv show ?thesis by (auto simp: lib_alloc_def lib_inv_def)
  next
    case (Some b)
    with alloc inv distinct_vals_other [of ?ss i b] show ?thesis by (auto simp: lib_inv_def)
  qed
  have view0: "lib_view h0 c =
      (case imap_get (src_sessions (lib_read h st)) i of None \<Rightarrow> src_empty_session | Some s \<Rightarrow> s)"
    using alloc by (auto simp: lib_read_get lib_alloc_def lib_view_def src_empty_session_def
        split: option.splits)
  have "\<forall>(k, b) \<in> set ?ss. k \<noteq> i \<longrightarrow> lib_objs h1 b = lib_objs h b"
    using frame0 part by fastforce
  then have read1: "lib_read h1 (st\<lparr>lib_sessions := imap_set i c1 ?ss\<rparr>) =
      \<lparr>src_sessions = imap_set i (lib_view h1 c) (src_sessions (lib_read h st))\<rparr>"
    using inv part by (simp add: lib_read_set lib_inv_def)
  have lib: "(h', st') = (h1, dispatch_fold (src_type a)
       (case src_value a of None \<Rightarrow> Some i | Some v \<Rightarrow> Some v) lib_stateReducers
       (st\<lparr>lib_sessions := imap_set i c1 ?ss\<rparr>))"
    using run sid alloc ds by (simp add: lib_mainReducer_def split: option.splits prod.splits)
  show ?thesis
    using lib read1 part view0 sid val
    by (auto simp: lib_dispatch_state lib_read_remove src_reduce_ref src_reference_def
        src_state_update_eq split: option.splits)
qed

theorem lib_refines_src_witness:
  "\<exists>h' st'. lib_mainReducer \<lparr>lib_objs = (\<lambda>_. \<lparr>lib_repos = []\<rparr>), lib_next = 1\<rparr>
       (Some \<lparr>lib_sessions = [(''s1'', 0)]\<rparr>)
       \<lparr>src_type = ''startClone'', src_session_id = Some ''s2'', src_value = Some ''u''\<rparr> = (h', st') \<and>
     lib_read h' st' = src_mainReducer (Some (lib_read \<lparr>lib_objs = (\<lambda>_. \<lparr>lib_repos = []\<rparr>), lib_next = 1\<rparr>
       \<lparr>lib_sessions = [(''s1'', 0)]\<rparr>))
       \<lparr>src_type = ''startClone'', src_session_id = Some ''s2'', src_value = Some ''u''\<rparr>"
proof -
  obtain h' st' where run: "lib_mainReducer \<lparr>lib_objs = (\<lambda>_. \<lparr>lib_repos = []\<rparr>), lib_next = 1\<rparr>
       (Some \<lparr>lib_sessions = [(''s1'', 0)]\<rparr>)
       \<lparr>src_type = ''startClone'', src_session_id = Some ''s2'', src_value = Some ''u''\<rparr> = (h', st')"
    by (metis surj_pair)
  have inv: "lib_inv \<lparr>lib_objs = (\<lambda>_. \<lparr>lib_repos = []\<rparr>), lib_next = 1\<rparr> \<lparr>lib_sessions = [(''s1'', 0)]\<rparr>"
    by (simp add: lib_inv_def)
  from lib_refines_src [OF inv _ _ _ run] run show ?thesis by auto
qed

text \<open>
  C11. Every reduction keeps the heap well-formed: distinct session keys, allocated
  session addresses, and no object shared by two sessions.
\<close>

theorem lib_inv_step:
  assumes inv: "lib_inv h st" and run: "lib_mainReducer h (Some st) a = (h', st')"
  shows "lib_inv h' st'"
proof (cases "src_session_id a")
  case None
  with inv run show ?thesis by (simp add: lib_mainReducer_def)
next
  case (Some i)
  let ?ss = "lib_sessions st"
  obtain c h0 where alloc: "(c, h0) = (case imap_get ?ss i of None \<Rightarrow> lib_alloc h \<lparr>lib_repos = []\<rparr> | Some b \<Rightarrow> (b, h))"
    by (metis surj_pair)
  obtain h1 c1 where ds: "dispatch_fold (src_type a) (src_value a) lib_sessionReducers (h0, c) = (h1, c1)"
    by (metis surj_pair)
  have c1: "c1 = c" and next1: "lib_next h1 = lib_next h0"
    using ds lib_startClone_frame [of h0 c "src_value a" h1 c1]
    by (auto simp: lib_dispatch_sessions split: if_splits)
  have "lib_inv h1 (st\<lparr>lib_sessions := imap_set i c1 ?ss\<rparr>)"
  proof (rule lib_inv_set [OF inv])
    show "imap_get ?ss i = None \<longrightarrow> c1 \<notin> snd ` set ?ss"
      using alloc inv c1 by (auto simp: lib_alloc_def lib_inv_def)
    show "imap_get ?ss i \<noteq> None \<longrightarrow> imap_get ?ss i = Some c1"
      using alloc c1 by auto
    show "c1 < lib_next h1" and "lib_next h \<le> lib_next h1"
      using alloc inv c1 next1 by (auto simp: lib_alloc_def lib_inv_def split: option.splits
          dest: imap_get_value)
  qed
  moreover have "(h', st') = (h1, dispatch_fold (src_type a)
       (case src_value a of None \<Rightarrow> Some i | Some v \<Rightarrow> Some v) lib_stateReducers
       (st\<lparr>lib_sessions := imap_set i c1 ?ss\<rparr>))"
    using run Some alloc ds by (simp add: lib_mainReducer_def split: option.splits prod.splits)
  ultimately show ?thesis
    by (auto simp: lib_dispatch_state intro: lib_inv_remove)
qed

theorem lib_inv_step_witness:
  "lib_inv \<lparr>lib_objs = (\<lambda>_. \<lparr>lib_repos = []\<rparr>), lib_next = 0\<rparr> lib_initial_state \<and>
   (\<exists>h' st'. lib_mainReducer \<lparr>lib_objs = (\<lambda>_. \<lparr>lib_repos = []\<rparr>), lib_next = 0\<rparr> (Some lib_initial_state)
       \<lparr>src_type = ''startClone'', src_session_id = Some ''s1'', src_value = Some ''u''\<rparr> = (h', st') \<and>
     lib_inv h' st')"
proof -
  have inv: "lib_inv \<lparr>lib_objs = (\<lambda>_. \<lparr>lib_repos = []\<rparr>), lib_next = 0\<rparr> lib_initial_state"
    by (simp add: lib_inv_def lib_initial_state_def)
  obtain h' st' where run: "lib_mainReducer \<lparr>lib_objs = (\<lambda>_. \<lparr>lib_repos = []\<rparr>), lib_next = 0\<rparr>
       (Some lib_initial_state)
       \<lparr>src_type = ''startClone'', src_session_id = Some ''s1'', src_value = Some ''u''\<rparr> = (h', st')"
    by (metis surj_pair)
  with inv lib_inv_step [OF inv run] show ?thesis by blast
qed

end
