(* ===== verification/Store.thy ===== *)
theory Store
  imports Prelude
begin

text \<open>
  The store reducer that the change reactor of \<^verbatim>\<open>src/src/handle_changes.js\<close> reads:
  a repository entry is \<^verbatim>\<open>Immutable.Map({status, slug, files})\<close> (the reactor reads
  \<^verbatim>\<open>repo.get('status')\<close> and \<^verbatim>\<open>repo.get('slug')\<close>, the application
  \<^verbatim>\<open>repo.get('files')\<close>), a session holds its repositories and the removal timer
  (\<^verbatim>\<open>session.get('timeout')\<close> in \<^verbatim>\<open>app.js\<close>). Its reducers for
  \<^verbatim>\<open>setRepoStatus\<close> and \<^verbatim>\<open>setTimeout\<close> are defined with the action creators in
  \<^verbatim>\<open>actions.js\<close>, which is not among the repository's sources; they follow the
  transition table of the spec (section 4.2). \<^verbatim>\<open>startClone\<close> and
  \<^verbatim>\<open>removeSession\<close> follow the reducers of \<^verbatim>\<open>reducers.js\<close> (a re-submitted URL
  that is absent or \<^verbatim>\<open>done\<close> gets a fresh \<^verbatim>\<open>start\<close> entry; \<^verbatim>\<open>removeSession\<close>
  defaults its value to the session id), with the early return of the compiled reducer
  on an action without a session id.
\<close>

record repo =
  repo_status :: status
  repo_slug :: "slug option"
  repo_files :: "string list option"

record session =
  repos :: "(url, repo) imap"
  timeout :: "timer option"

record state =
  sessions :: "(sid, session) imap"

record repo_update =
  upd_url :: url
  upd_status :: status
  upd_slug :: "slug option"
  upd_files :: "string list option"

datatype action_body =
    StartClone url
  | SetRepoStatus repo_update
  | RemoveSession "sid option"
  | SetTimeout timer

record action =
  act_session_id :: "sid option"
  act_body :: action_body

definition initial_state :: state where
  "initial_state = \<lparr>sessions = []\<rparr>"

definition empty_session :: session where
  "empty_session = \<lparr>repos = [], timeout = None\<rparr>"

definition start_entry :: repo where
  "start_entry = \<lparr>repo_status = Start, repo_slug = None, repo_files = None\<rparr>"

definition store_startClone :: "session \<Rightarrow> url \<Rightarrow> session" where
  "store_startClone s u =
     (case imap_get (repos s) u of
        None \<Rightarrow> s\<lparr>repos := imap_set u start_entry (repos s)\<rparr>
      | Some r \<Rightarrow> if repo_status r = Done
                  then s\<lparr>repos := imap_set u start_entry (repos s)\<rparr> else s)"

text \<open>One row of the transition table for an existing entry; \<open>None\<close> is "no change".\<close>

fun repo_transition :: "repo \<Rightarrow> repo_update \<Rightarrow> repo option" where
  "repo_transition r v =
     (case (repo_status r, upd_status v) of
        (_, Failed) \<Rightarrow> Some (r\<lparr>repo_status := Failed, repo_files := None\<rparr>)
      | (Start, Cloning) \<Rightarrow> Some (r\<lparr>repo_status := Cloning, repo_slug := upd_slug v\<rparr>)
      | (Cloning, CloneDone) \<Rightarrow> Some (r\<lparr>repo_status := CloneDone\<rparr>)
      | (CloneDone, Done) \<Rightarrow> Some (r\<lparr>repo_status := Done, repo_files := upd_files v\<rparr>)
      | _ \<Rightarrow> None)"

definition store_setRepoStatus :: "session \<Rightarrow> repo_update \<Rightarrow> session" where
  "store_setRepoStatus s v =
     (case imap_get (repos s) (upd_url v) of
        None \<Rightarrow> s
      | Some r \<Rightarrow> (case repo_transition r v of
                    None \<Rightarrow> s
                  | Some r' \<Rightarrow> s\<lparr>repos := imap_set (upd_url v) r' (repos s)\<rparr>))"

definition store_setTimeout :: "session \<Rightarrow> timer \<Rightarrow> session" where
  "store_setTimeout s t = s\<lparr>timeout := Some t\<rparr>"

definition store_removeSession :: "state \<Rightarrow> sid \<Rightarrow> state" where
  "store_removeSession st i = st\<lparr>sessions := imap_delete i (sessions st)\<rparr>"

fun session_reduce :: "session \<Rightarrow> action_body \<Rightarrow> session" where
  "session_reduce s (StartClone u) = store_startClone s u"
| "session_reduce s (SetRepoStatus v) = store_setRepoStatus s v"
| "session_reduce s (SetTimeout t) = store_setTimeout s t"
| "session_reduce s (RemoveSession _) = s"

definition store_reduce :: "state \<Rightarrow> action \<Rightarrow> state" where
  "store_reduce st a =
     (case act_session_id a of
        None \<Rightarrow> st
      | Some i \<Rightarrow>
          (let s = (case imap_get (sessions st) i of None \<Rightarrow> empty_session | Some s \<Rightarrow> s);
               st' = st\<lparr>sessions := imap_set i (session_reduce s (act_body a)) (sessions st)\<rparr>
           in case act_body a of
                RemoveSession v \<Rightarrow> store_removeSession st' (case v of None \<Rightarrow> i | Some j \<Rightarrow> j)
              | _ \<Rightarrow> st'))"

definition store_run :: "state \<Rightarrow> action list \<Rightarrow> state" where
  "store_run st as = foldl store_reduce st as"

text \<open>What \<^verbatim>\<open>getState().get('sessions').get(id).get('repos').get(url)\<close> returns.\<close>

definition store_entry :: "state \<Rightarrow> sid \<Rightarrow> url \<Rightarrow> repo option" where
  "store_entry st i u =
     (case imap_get (sessions st) i of None \<Rightarrow> None | Some s \<Rightarrow> imap_get (repos s) u)"

definition store_status :: "state \<Rightarrow> sid \<Rightarrow> url \<Rightarrow> status option" where
  "store_status st i u = map_option repo_status (store_entry st i u)"

text \<open>
  Well-formed entries: a status of the store's vocabulary, files exactly when
  \<^verbatim>\<open>done\<close>, a slug once cloning has begun (\<^verbatim>\<open>cloning\<close>, \<^verbatim>\<open>clone_done\<close>,
  \<^verbatim>\<open>done\<close>).
\<close>

definition repo_wf :: "repo \<Rightarrow> bool" where
  "repo_wf r \<longleftrightarrow> repo_status r \<in> {Start, Cloning, CloneDone, Done, Failed} \<and>
     (repo_files r \<noteq> None \<longleftrightarrow> repo_status r = Done) \<and>
     (repo_status r \<in> {Cloning, CloneDone, Done} \<longrightarrow> repo_slug r \<noteq> None)"

definition session_wf :: "session \<Rightarrow> bool" where
  "session_wf s \<longleftrightarrow> imap_wf (repos s) \<and> imap_all repo_wf (repos s)"

definition store_wf :: "state \<Rightarrow> bool" where
  "store_wf st \<longleftrightarrow> imap_wf (sessions st) \<and> imap_all session_wf (sessions st)"

text \<open>
  The actions the program dispatches (spec section 6): a \<^verbatim>\<open>cloning\<close> update carries
  the slug, a \<^verbatim>\<open>done\<close> update carries the file list, and \<^verbatim>\<open>setRepoStatus\<close> sets
  one of the statuses reached by the runner and the lister.
\<close>

fun action_ok :: "action_body \<Rightarrow> bool" where
  "action_ok (SetRepoStatus v) \<longleftrightarrow>
     upd_status v \<in> {Cloning, CloneDone, Done, Failed} \<and>
     (upd_status v = Cloning \<longrightarrow> upd_slug v \<noteq> None) \<and>
     (upd_status v = Done \<longrightarrow> upd_files v \<noteq> None)"
| "action_ok _ \<longleftrightarrow> True"

text \<open>
  The status changes the transition table allows for one repository of one session:
  none, removal with the session, \<^verbatim>\<open>failed\<close> from any existing entry, and the
  edges \<^verbatim>\<open>absent/done \<rightarrow> start \<rightarrow> cloning \<rightarrow> clone_done \<rightarrow> done\<close>.
\<close>

fun legal_step :: "status option \<Rightarrow> status option \<Rightarrow> bool" where
  "legal_step old new \<longleftrightarrow>
     new = old \<or> new = None \<or> (old \<noteq> None \<and> new = Some Failed) \<or>
     (old, new) \<in> {(None, Some Start), (Some Done, Some Start), (Some Start, Some Cloning),
                   (Some Cloning, Some CloneDone), (Some CloneDone, Some Done)}"

text \<open>An action that removes session \<open>i\<close>: \<^verbatim>\<open>removeSession\<close> naming it, by its value or by default.\<close>

definition removes_session :: "action \<Rightarrow> sid \<Rightarrow> bool" where
  "removes_session a i \<longleftrightarrow>
     (case (act_session_id a, act_body a) of
        (Some j, RemoveSession v) \<Rightarrow> i = (case v of None \<Rightarrow> j | Some k \<Rightarrow> k)
      | _ \<Rightarrow> False)"

text \<open>
  The dispatches of one successful clone of \<open>u\<close> in session \<open>i\<close>, in the order the
  program makes them: \<^verbatim>\<open>startClone\<close> (\<^verbatim>\<open>POST /\<close>), \<^verbatim>\<open>cloning\<close> with the slug
  (the \<^verbatim>\<open>fs.exists\<close> callback), \<^verbatim>\<open>clone_done\<close> (\<^verbatim>\<open>reportStatus\<close> on exit code 0)
  and \<^verbatim>\<open>done\<close> with the file list (the \<^verbatim>\<open>glob\<close> callback of \<^verbatim>\<open>getFiles\<close>).
\<close>

definition happy_path :: "sid \<Rightarrow> url \<Rightarrow> slug \<Rightarrow> string list \<Rightarrow> action list" where
  "happy_path i u sl fs =
     [\<lparr>act_session_id = Some i, act_body = StartClone u\<rparr>,
      \<lparr>act_session_id = Some i, act_body = SetRepoStatus
         \<lparr>upd_url = u, upd_status = Cloning, upd_slug = Some sl, upd_files = None\<rparr>\<rparr>,
      \<lparr>act_session_id = Some i, act_body = SetRepoStatus
         \<lparr>upd_url = u, upd_status = CloneDone, upd_slug = None, upd_files = None\<rparr>\<rparr>,
      \<lparr>act_session_id = Some i, act_body = SetRepoStatus
         \<lparr>upd_url = u, upd_status = Done, upd_slug = None, upd_files = Some fs\<rparr>\<rparr>]"

text \<open>The scenario of spec section 8.\<close>

definition scenario_url :: url where "scenario_url = ''https://host/repo.git''"

definition scenario_prefix :: "action list" where
  "scenario_prefix =
    [\<lparr>act_session_id = Some ''s1'', act_body = StartClone scenario_url\<rparr>,
     \<lparr>act_session_id = Some ''s1'', act_body = SetRepoStatus
        \<lparr>upd_url = scenario_url, upd_status = Cloning, upd_slug = Some ''a1b2c3d'', upd_files = None\<rparr>\<rparr>]"

lemma store_entry_session:
  "store_entry st i u = imap_get (repos (case imap_get (sessions st) i of None \<Rightarrow> empty_session | Some s \<Rightarrow> s)) u"
  by (simp add: store_entry_def empty_session_def split: option.splits)

lemma store_entry_reduce:
  "store_entry (store_reduce st a) i u =
     (case act_session_id a of
        None \<Rightarrow> store_entry st i u
      | Some j \<Rightarrow>
          (case act_body a of
             RemoveSession v \<Rightarrow>
               if i = (case v of None \<Rightarrow> j | Some k \<Rightarrow> k) then None
               else if i = j then imap_get (repos (case imap_get (sessions st) j of None \<Rightarrow> empty_session | Some s \<Rightarrow> s)) u
               else store_entry st i u
           | b \<Rightarrow> if i = j then imap_get (repos (session_reduce
                       (case imap_get (sessions st) j of None \<Rightarrow> empty_session | Some s \<Rightarrow> s) b)) u
                  else store_entry st i u))"
  by (auto simp: store_reduce_def store_entry_def store_removeSession_def imap_simps Let_def
      split: option.splits action_body.splits)

lemma store_startClone_entry:
  "imap_get (repos (store_startClone s w)) u =
     (if w = u \<and> (imap_get (repos s) u = None \<or> map_option repo_status (imap_get (repos s) u) = Some Done)
      then Some start_entry else imap_get (repos s) u)"
  by (auto simp: store_startClone_def imap_simps split: option.splits)

lemma store_setRepoStatus_entry:
  "imap_get (repos (store_setRepoStatus s v)) u =
     (if upd_url v = u then
        (case imap_get (repos s) u of None \<Rightarrow> None
         | Some r \<Rightarrow> (case repo_transition r v of None \<Rightarrow> Some r | Some r' \<Rightarrow> Some r'))
      else imap_get (repos s) u)"
  by (auto simp: store_setRepoStatus_def imap_simps simp del: repo_transition.simps split: option.splits)

lemma store_setTimeout_repos [simp]: "repos (store_setTimeout s t) = repos s"
  by (simp add: store_setTimeout_def)

lemma repo_transition_status:
  "repo_transition r v = Some r' \<Longrightarrow>
   legal_step (Some (repo_status r)) (Some (repo_status r'))"
  by (cases "repo_status r"; cases "upd_status v") auto

lemma legal_step_refl [simp]: "legal_step x x"
  by simp

lemma session_reduce_legal:
  "legal_step (map_option repo_status (imap_get (repos s) u))
              (map_option repo_status (imap_get (repos (session_reduce s b)) u))"
proof (cases b)
  case (StartClone w)
  then show ?thesis
    by (auto simp: store_startClone_entry start_entry_def split: option.splits)
next
  case (SetRepoStatus v)
  show ?thesis
  proof (cases "imap_get (repos s) u")
    case None
    with SetRepoStatus show ?thesis by (simp add: store_setRepoStatus_entry)
  next
    case (Some r)
    with SetRepoStatus show ?thesis
      by (auto simp: store_setRepoStatus_entry simp del: repo_transition.simps legal_step.simps
          intro: repo_transition_status split: option.splits)
  qed
qed simp_all

lemma repo_wf_start [simp]: "repo_wf start_entry"
  by (simp add: repo_wf_def start_entry_def)

lemma repo_transition_wf:
  "repo_wf r \<Longrightarrow> action_ok (SetRepoStatus v) \<Longrightarrow> repo_transition r v = Some r' \<Longrightarrow> repo_wf r'"
  by (cases "repo_status r"; cases "upd_status v") (auto simp: repo_wf_def)

lemma session_wf_empty [simp]: "session_wf empty_session"
  by (simp add: session_wf_def empty_session_def)

lemma session_reduce_wf:
  assumes "session_wf s" and "action_ok b"
  shows "session_wf (session_reduce s b)"
proof (cases b)
  case (SetRepoStatus v)
  have "repo_wf r'" if "imap_get (repos s) (upd_url v) = Some r" and "repo_transition r v = Some r'" for r r'
  proof -
    have "repo_wf r" using assms(1) that(1) by (auto simp: session_wf_def dest: imap_all_get)
    with assms(2) SetRepoStatus that(2) show ?thesis by (blast intro: repo_transition_wf)
  qed
  with assms(1) SetRepoStatus show ?thesis
    by (auto simp: session_wf_def store_setRepoStatus_def imap_wf_set simp del: repo_transition.simps
        intro!: imap_all_set split: option.splits)
qed (use assms in \<open>auto simp: session_wf_def store_startClone_def store_setTimeout_def imap_wf_set
      intro!: imap_all_set split: option.splits\<close>)

lemma store_startClone_status_session:
  "map_option repo_status (imap_get (repos (store_startClone s u)) u) =
   (if map_option repo_status (imap_get (repos s) u) = None \<or>
       map_option repo_status (imap_get (repos s) u) = Some Done
    then Some Start else map_option repo_status (imap_get (repos s) u))"
  by (auto simp: store_startClone_entry start_entry_def split: option.splits)

lemma store_reduce_wf:
  assumes "store_wf st" and "action_ok (act_body a)"
  shows "store_wf (store_reduce st a)"
proof -
  have wf: "imap_wf (sessions st)" and all: "imap_all session_wf (sessions st)"
    using assms(1) by (simp_all add: store_wf_def)
  let ?s = "\<lambda>i. case imap_get (sessions st) i of None \<Rightarrow> empty_session | Some s \<Rightarrow> s"
  have "session_wf (?s i)" for i
    using all by (auto dest: imap_all_get split: option.splits)
  then have "session_wf (session_reduce (?s i) (act_body a))" for i
    using assms(2) by (rule session_reduce_wf)
  show ?thesis
  proof (cases "act_session_id a")
    case None
    with assms(1) show ?thesis by (simp add: store_reduce_def)
  next
    case (Some i)
    let ?X = "st\<lparr>sessions := imap_set i (session_reduce (?s i) (act_body a)) (sessions st)\<rparr>"
    have X: "store_wf ?X"
      using wf all \<open>session_wf (session_reduce (?s i) (act_body a))\<close>
      by (simp add: store_wf_def imap_wf_set imap_all_set)
    have red: "store_reduce st a = (case act_body a of
        RemoveSession v \<Rightarrow> store_removeSession ?X (case v of None \<Rightarrow> i | Some j \<Rightarrow> j) | _ \<Rightarrow> ?X)"
      using Some by (simp add: store_reduce_def Let_def)
    show ?thesis
      using X unfolding red
      by (auto simp: store_wf_def store_removeSession_def imap_wf_delete imap_all_delete
          split: action_body.splits)
  qed
qed

subsection \<open>Properties of the store reducer\<close>

lemma store_legal_table:
  "legal_step (store_status st i u) (store_status (store_reduce st a) i u)"
proof (cases "act_session_id a")
  case None
  then show ?thesis by (simp add: store_status_def store_entry_reduce del: legal_step.simps)
next
  case (Some j)
  let ?s = "case imap_get (sessions st) j of None \<Rightarrow> empty_session | Some s \<Rightarrow> s"
  have base: "map_option repo_status (imap_get (repos ?s) u) = store_status st j u"
    by (auto simp: store_status_def store_entry_def empty_session_def split: option.splits)
  have step: "legal_step (store_status st j u) (map_option repo_status (imap_get (repos (session_reduce ?s b)) u))" for b
    using session_reduce_legal [of ?s u b] base by (simp only:)
  show ?thesis
  proof (cases "act_body a")
    case (RemoveSession v)
    with Some show ?thesis
      using base by (auto simp: store_status_def store_entry_reduce)
  qed (use Some step in \<open>auto simp: store_status_def store_entry_reduce
      simp del: legal_step.simps session_reduce.simps\<close>)
qed

lemma entry_removed_only_by_remove:
  assumes "store_status st i u \<noteq> None" and "store_status (store_reduce st a) i u = None"
  shows "removes_session a i"
proof (cases "act_session_id a")
  case None
  with assms show ?thesis by (simp add: store_status_def store_entry_reduce)
next
  case (Some j)
  have s: "imap_get (repos (case imap_get (sessions st) i of None \<Rightarrow> empty_session | Some s \<Rightarrow> s)) u \<noteq> None"
    using assms(1) by (simp add: store_status_def store_entry_session)
  show ?thesis
  proof (cases "act_body a")
    case (RemoveSession v)
    with Some assms s show ?thesis
      by (auto simp: removes_session_def store_status_def store_entry_reduce split: if_splits)
  qed (use Some assms(1,2) s in \<open>auto simp: store_status_def store_entry_reduce store_startClone_entry
      store_setRepoStatus_entry store_setTimeout_def split: if_splits option.splits\<close>)
qed

text \<open>
  C12. Every action changes the status of any repository entry of any session only along
  the transition table (no status is skipped, and nothing moves backwards except a
  re-submission of a \<^verbatim>\<open>done\<close> entry or a \<^verbatim>\<open>failed\<close> report), and an existing entry
  disappears only through a \<^verbatim>\<open>removeSession\<close> of its session.
\<close>

theorem store_legal_step:
  "legal_step (store_status st i u) (store_status (store_reduce st a) i u) \<and>
   (store_status st i u \<noteq> None \<longrightarrow> store_status (store_reduce st a) i u = None \<longrightarrow> removes_session a i)"
  using store_legal_table entry_removed_only_by_remove by blast

theorem store_legal_step_witness:
  "store_status \<lparr>sessions = [(''s1'', \<lparr>repos = [(''u'', start_entry)], timeout = None\<rparr>)]\<rparr> ''s1'' ''u'' \<noteq> None \<and>
   store_status (store_reduce \<lparr>sessions = [(''s1'', \<lparr>repos = [(''u'', start_entry)], timeout = None\<rparr>)]\<rparr>
     \<lparr>act_session_id = Some ''s1'', act_body = RemoveSession None\<rparr>) ''s1'' ''u'' = None \<and>
   removes_session \<lparr>act_session_id = Some ''s1'', act_body = RemoveSession None\<rparr> ''s1''"
proof -
  let ?st = "\<lparr>sessions = [(''s1'', \<lparr>repos = [(''u'', start_entry)], timeout = None\<rparr>)]\<rparr>"
  let ?a = "\<lparr>act_session_id = Some ''s1'', act_body = RemoveSession None\<rparr>"
  have h1: "store_status ?st ''s1'' ''u'' \<noteq> None" by (simp add: store_status_def store_entry_def)
  have h2: "store_status (store_reduce ?st ?a) ''s1'' ''u'' = None"
    by (simp add: store_status_def store_entry_def store_reduce_def store_removeSession_def)
  from h1 h2 store_legal_step [of ?st "''s1''" "''u''" ?a] show ?thesis by blast
qed

text \<open>
  C13. The well-formedness of entries (a store status; files exactly when
  \<^verbatim>\<open>done\<close>; a slug from \<^verbatim>\<open>cloning\<close> on) and of the maps is kept by every
  action of the program's vocabulary.
\<close>

theorem store_wf_step:
  assumes "store_wf st" and "action_ok (act_body a)"
  shows "store_wf (store_reduce st a)"
  using assms by (rule store_reduce_wf)

theorem store_wf_step_witness:
  "store_wf initial_state \<and> action_ok (StartClone ''u'') \<and>
   store_wf (store_reduce initial_state \<lparr>act_session_id = Some ''s1'', act_body = StartClone ''u''\<rparr>)"
proof -
  have h1: "store_wf initial_state" by (simp add: store_wf_def initial_state_def)
  have h2: "action_ok (StartClone ''u'')" by simp
  from store_wf_step [of initial_state "\<lparr>act_session_id = Some ''s1'', act_body = StartClone ''u''\<rparr>"] h1 h2
  show ?thesis by simp
qed

text \<open>
  C14. Re-submitting a URL whose entry is \<^verbatim>\<open>start\<close>, \<^verbatim>\<open>cloning\<close>,
  \<^verbatim>\<open>clone_done\<close> or \<^verbatim>\<open>failed\<close> leaves the whole state unchanged, so no second
  clone is triggered for it.
\<close>

theorem store_startClone_idempotent:
  assumes "imap_get (sessions st) i = Some s" and "imap_get (repos s) u = Some r"
    and "repo_status r \<noteq> Done"
  shows "store_reduce st \<lparr>act_session_id = Some i, act_body = StartClone u\<rparr> = st"
  using assms by (simp add: store_reduce_def store_startClone_def imap_set_same)

theorem store_startClone_idempotent_witness:
  "store_reduce \<lparr>sessions = [(''s1'', \<lparr>repos = [(''u'', \<lparr>repo_status = Cloning, repo_slug = Some ''a1b2c3d'',
       repo_files = None\<rparr>)], timeout = None\<rparr>)]\<rparr>
     \<lparr>act_session_id = Some ''s1'', act_body = StartClone ''u''\<rparr> =
   \<lparr>sessions = [(''s1'', \<lparr>repos = [(''u'', \<lparr>repo_status = Cloning, repo_slug = Some ''a1b2c3d'',
       repo_files = None\<rparr>)], timeout = None\<rparr>)]\<rparr>"
  by (rule store_startClone_idempotent
      [where s = "\<lparr>repos = [(''u'', \<lparr>repo_status = Cloning, repo_slug = Some ''a1b2c3d'', repo_files = None\<rparr>)],
                 timeout = None\<rparr>"
         and r = "\<lparr>repo_status = Cloning, repo_slug = Some ''a1b2c3d'', repo_files = None\<rparr>"]) simp_all

text \<open>
  \<^verbatim>\<open>startClone\<close> sets the entry to \<^verbatim>\<open>start\<close> when it is absent or
  \<^verbatim>\<open>done\<close> (creating the session if needed) and keeps any other status.
\<close>

theorem store_startClone_status:
  "store_status (store_reduce st \<lparr>act_session_id = Some i, act_body = StartClone u\<rparr>) i u =
   (if store_status st i u = None \<or> store_status st i u = Some Done then Some Start
    else store_status st i u)"
proof -
  let ?s = "case imap_get (sessions st) i of None \<Rightarrow> empty_session | Some s \<Rightarrow> s"
  have "store_status (store_reduce st \<lparr>act_session_id = Some i, act_body = StartClone u\<rparr>) i u =
        map_option repo_status (imap_get (repos (store_startClone ?s u)) u)"
    by (simp only: store_status_def store_entry_reduce) simp
  also have "\<dots> = (if map_option repo_status (imap_get (repos ?s) u) = None \<or>
       map_option repo_status (imap_get (repos ?s) u) = Some Done
    then Some Start else map_option repo_status (imap_get (repos ?s) u))"
    by (rule store_startClone_status_session)
  also have "map_option repo_status (imap_get (repos ?s) u) = store_status st i u"
    by (simp add: store_status_def store_entry_session)
  finally show ?thesis .
qed

text \<open>
  C16. What a reader of the sessions sees after \<^verbatim>\<open>removeSession\<close>: the session its
  value names (the acting session when there is no value) is gone; the acting session,
  when it is another one, is there, created empty if it was unknown and otherwise
  unchanged; every other session is untouched.
\<close>

theorem store_removeSession_removes:
  "imap_get (sessions (store_reduce st \<lparr>act_session_id = Some i, act_body = RemoveSession v\<rparr>)) k =
   (if k = (case v of None \<Rightarrow> i | Some j \<Rightarrow> j) then None
    else if k = i then Some (case imap_get (sessions st) i of None \<Rightarrow> empty_session | Some s \<Rightarrow> s)
    else imap_get (sessions st) k)"
  by (simp add: store_reduce_def store_removeSession_def imap_simps)

text \<open>Recording a removal timer never changes any repository entry.\<close>

theorem store_setTimeout_entries:
  "store_entry (store_reduce st \<lparr>act_session_id = Some i, act_body = SetTimeout t\<rparr>) j u = store_entry st j u"
  by (simp only: store_entry_reduce) (simp add: store_entry_session)

lemma store_entry_startClone:
  "store_entry (store_reduce st \<lparr>act_session_id = Some i, act_body = StartClone u\<rparr>) i u =
   (if store_status st i u = None \<or> store_status st i u = Some Done then Some start_entry else store_entry st i u)"
  by (simp only: store_entry_reduce)
     (auto simp: store_entry_session store_startClone_entry store_status_def split: option.splits)

lemma store_entry_setRepoStatus:
  "store_entry (store_reduce st \<lparr>act_session_id = Some i, act_body = SetRepoStatus v\<rparr>) i (upd_url v) =
   (case store_entry st i (upd_url v) of None \<Rightarrow> None
    | Some r \<Rightarrow> Some (case repo_transition r v of None \<Rightarrow> r | Some r' \<Rightarrow> r'))"
  by (simp only: store_entry_reduce)
     (simp add: store_entry_session store_setRepoStatus_entry split: option.splits)

text \<open>
  C18. The success path of spec section 8, for every session, URL, slug and file list:
  from an absent or \<^verbatim>\<open>done\<close> entry, the program's four dispatches of a successful clone
  (\<^verbatim>\<open>startClone\<close>, \<^verbatim>\<open>cloning\<close> with the slug, \<^verbatim>\<open>clone_done\<close>, \<^verbatim>\<open>done\<close> with
  the files) leave a \<^verbatim>\<open>done\<close> entry holding exactly that slug and those files.
\<close>

theorem store_happy_path:
  assumes "store_status st i u = None \<or> store_status st i u = Some Done"
  shows "store_entry (store_run st (happy_path i u sl fs)) i u =
           Some \<lparr>repo_status = Done, repo_slug = Some sl, repo_files = Some fs\<rparr>"
proof -
  let ?a = "\<lambda>b. \<lparr>act_session_id = Some i, act_body = b\<rparr>"
  let ?v = "\<lambda>x sl' fs'. \<lparr>upd_url = u, upd_status = x, upd_slug = sl', upd_files = fs'\<rparr>"
  define st1 where "st1 = store_reduce st (?a (StartClone u))"
  define st2 where "st2 = store_reduce st1 (?a (SetRepoStatus (?v Cloning (Some sl) None)))"
  define st3 where "st3 = store_reduce st2 (?a (SetRepoStatus (?v CloneDone None None)))"
  define st4 where "st4 = store_reduce st3 (?a (SetRepoStatus (?v Done None (Some fs))))"
  have e1: "store_entry st1 i u = Some start_entry"
    using assms by (simp add: st1_def store_entry_startClone)
  have e2: "store_entry st2 i u = Some \<lparr>repo_status = Cloning, repo_slug = Some sl, repo_files = None\<rparr>"
    using store_entry_setRepoStatus [of st1 i "?v Cloning (Some sl) None"] e1
    by (simp add: st2_def start_entry_def)
  have e3: "store_entry st3 i u = Some \<lparr>repo_status = CloneDone, repo_slug = Some sl, repo_files = None\<rparr>"
    using store_entry_setRepoStatus [of st2 i "?v CloneDone None None"] e2 by (simp add: st3_def)
  have e4: "store_entry st4 i u = Some \<lparr>repo_status = Done, repo_slug = Some sl, repo_files = Some fs\<rparr>"
    using store_entry_setRepoStatus [of st3 i "?v Done None (Some fs)"] e3 by (simp add: st4_def)
  have "store_run st (happy_path i u sl fs) = st4"
    by (simp add: store_run_def happy_path_def st1_def st2_def st3_def st4_def)
  with e4 show ?thesis by simp
qed

theorem store_happy_path_witness:
  "store_status initial_state ''s1'' scenario_url = None \<and>
   store_entry (store_run initial_state (happy_path ''s1'' scenario_url ''a1b2c3d'' [''README.md'', ''src/main.go'']))
     ''s1'' scenario_url =
   Some \<lparr>repo_status = Done, repo_slug = Some ''a1b2c3d'', repo_files = Some [''README.md'', ''src/main.go'']\<rparr>"
proof -
  have h: "store_status initial_state ''s1'' scenario_url = None"
    by (simp add: store_status_def store_entry_def initial_state_def)
  from h store_happy_path [of initial_state "''s1''" scenario_url] show ?thesis by simp
qed

text \<open>
  The failing scenario: after \<^verbatim>\<open>cloning\<close> the clone process reports failure;
  the entry ends \<^verbatim>\<open>failed\<close> with no file list.
\<close>

theorem store_scenario_failed:
  "store_entry (store_run initial_state (scenario_prefix @
     [\<lparr>act_session_id = Some ''s1'', act_body = SetRepoStatus
        \<lparr>upd_url = scenario_url, upd_status = Failed, upd_slug = None, upd_files = None\<rparr>\<rparr>])) ''s1'' scenario_url =
   Some \<lparr>repo_status = Failed, repo_slug = Some ''a1b2c3d'', repo_files = None\<rparr>"
  by (simp add: store_run_def scenario_prefix_def store_reduce_def store_entry_def initial_state_def
      empty_session_def store_startClone_def store_setRepoStatus_def start_entry_def)

end
