(* ===== verification/Reactor.thy ===== *)
theory Reactor
  imports Store "HOL-Library.Sublist"
begin

text \<open>
  Model of the change reactor \<^verbatim>\<open>src/src/handle_changes.js\<close>. Each synchronous
  piece of the listener is a function that returns the list of effects it performs, in
  program order: a \<open>Dispatch\<close> of an action to the store, or the \<open>Spawn\<close> of an
  asynchronous operation whose callback runs later (\<^verbatim>\<open>fs.exists\<close>, the git child
  process, \<^verbatim>\<open>glob\<close>, \<^verbatim>\<open>rimraf\<close>). The callbacks are functions of the operation's
  outcome. The filesystem is a list of regular files and a list of directories, each a
  path of segments; \<^verbatim>\<open>path.join\<close> is concatenation of segments and
  \<^verbatim>\<open>path.relative\<close> drops the base prefix. The configuration module provides the
  session data root and the SHA-1 hex digest (\<^verbatim>\<open>crypto\<close>), a parameter of the model,
  and, for the HTTP layer, \<^verbatim>\<open>MAX_CLONES_PER_IP\<close> and \<^verbatim>\<open>TRUST_PROXY\<close>.
\<close>

type_synonym path = "string list"

record config =
  session_data :: path
  sha1_hex :: "string \<Rightarrow> string"
  max_clones_per_ip :: nat
  trust_proxy :: bool

record fs =
  fs_files :: "path list"
  fs_dirs :: "path list"

datatype git_cmd = GitFetch path | GitClone url path

datatype task =
    ExistsCheck sid url slug
  | GitProc sid url git_cmd
  | ListFiles sid url slug
  | SweepGlob "sid list"
  | Rimraf path

datatype effect = Dispatch action | Spawn task

definition hash :: "config \<Rightarrow> string \<Rightarrow> slug" where
  "hash cfg str = take 7 (sha1_hex cfg str)"

definition toFolder :: "config \<Rightarrow> sid \<Rightarrow> slug \<Rightarrow> path" where
  "toFolder cfg i s = session_data cfg @ [i, s]"

fun render_path :: "path \<Rightarrow> string" where
  "render_path [] = []"
| "render_path [x] = x"
| "render_path (x # xs) = x @ ''/'' @ render_path xs"

definition git_command :: "git_cmd \<Rightarrow> string" where
  "git_command c = (case c of
      GitFetch folder \<Rightarrow> ''cd '' @ render_path folder @ '' && git fetch && git reset --hard origin/HEAD''
    | GitClone u folder \<Rightarrow> ''git clone --depth=1 '' @ u @ '' '' @ render_path folder)"

definition setRepoStatus :: "sid \<Rightarrow> url \<Rightarrow> status \<Rightarrow> slug option \<Rightarrow> string list option \<Rightarrow> effect" where
  "setRepoStatus i u st sl fl =
     Dispatch \<lparr>act_session_id = Some i,
               act_body = SetRepoStatus \<lparr>upd_url = u, upd_status = st, upd_slug = sl, upd_files = fl\<rparr>\<rparr>"

definition fetch :: "config \<Rightarrow> sid \<Rightarrow> url \<Rightarrow> slug \<Rightarrow> git_cmd" where
  "fetch cfg i u s = GitFetch (toFolder cfg i s)"

definition clone :: "config \<Rightarrow> sid \<Rightarrow> url \<Rightarrow> slug \<Rightarrow> git_cmd" where
  "clone cfg i u s = GitClone u (toFolder cfg i s)"

text \<open>\<^verbatim>\<open>startClone(id, url)\<close>: compute the slug and ask whether the folder exists.\<close>

definition startClone :: "config \<Rightarrow> sid \<Rightarrow> url \<Rightarrow> effect list" where
  "startClone cfg i u = [Spawn (ExistsCheck i u (hash cfg u))]"

text \<open>
  The \<^verbatim>\<open>fs.exists\<close> callback of \<^verbatim>\<open>startClone\<close>: start a fetch or a clone, then
  dispatch \<^verbatim>\<open>cloning\<close> with the slug; the process's exit is \<^verbatim>\<open>reportStatus\<close>.
\<close>

definition exists_cb :: "config \<Rightarrow> sid \<Rightarrow> url \<Rightarrow> slug \<Rightarrow> bool \<Rightarrow> effect list" where
  "exists_cb cfg i u s ex =
     [Spawn (GitProc i u (if ex then fetch cfg i u s else clone cfg i u s)),
      setRepoStatus i u Cloning (Some s) None]"

definition reportStatus :: "sid \<Rightarrow> url \<Rightarrow> int \<Rightarrow> effect list" where
  "reportStatus i u code =
     (if code \<noteq> 0 then [setRepoStatus i u Failed None None]
      else [setRepoStatus i u CloneDone None None])"

text \<open>
  \<^verbatim>\<open>glob(folder/**/*, {dot: true, nodir: true, ignore: folder/.git/**/*})\<close>: the
  regular files strictly below the folder, hidden ones included, except those strictly
  below \<^verbatim>\<open>folder/.git\<close>.
\<close>

definition glob_tree :: "fs \<Rightarrow> path \<Rightarrow> path list" where
  "glob_tree f folder =
     [p \<leftarrow> fs_files f. prefix folder p \<and> length folder < length p \<and>
        \<not> (prefix (folder @ [''.git'']) p \<and> Suc (length folder) < length p)]"

text \<open>\<^verbatim>\<open>getFiles(id, url, slug)\<close>.\<close>

definition getFiles :: "sid \<Rightarrow> url \<Rightarrow> slug option \<Rightarrow> effect list" where
  "getFiles i u sl =
     (case sl of None \<Rightarrow> [setRepoStatus i u Failed None None]
      | Some s \<Rightarrow> [Spawn (ListFiles i u s)])"

text \<open>The \<^verbatim>\<open>glob\<close> callback of \<^verbatim>\<open>getFiles\<close>: an error or the matched paths.\<close>

definition files_cb :: "config \<Rightarrow> sid \<Rightarrow> url \<Rightarrow> string + path list \<Rightarrow> effect list" where
  "files_cb cfg i u res =
     (case res of
        Inl err \<Rightarrow> [setRepoStatus i u Failed None None]
      | Inr filepaths \<Rightarrow>
          [setRepoStatus i u Done None
             (Some (map (\<lambda>p. render_path (drop (length (session_data cfg @ [i])) p)) filepaths))])"

definition handleSessionChanges :: "config \<Rightarrow> session \<Rightarrow> sid \<Rightarrow> effect list" where
  "handleSessionChanges cfg session i =
     concat (map (\<lambda>(u, r).
        if repo_status r = Start then startClone cfg i u
        else if repo_status r = CloneDone then getFiles i u (repo_slug r)
        else []) (repos session))"

text \<open>\<^verbatim>\<open>Immutable\<close> value equality of sessions and states.\<close>

definition session_equals :: "session \<Rightarrow> session \<Rightarrow> bool" where
  "session_equals s1 s2 \<longleftrightarrow> imap_equals_by (=) (repos s1) (repos s2) \<and> timeout s1 = timeout s2"

definition state_equals :: "state \<Rightarrow> state \<Rightarrow> bool" where
  "state_equals st1 st2 \<longleftrightarrow> imap_equals_by session_equals (sessions st1) (sessions st2)"

definition removeUnusedFiles :: "(sid, session) imap \<Rightarrow> effect list" where
  "removeUnusedFiles ss = [Spawn (SweepGlob (imap_keys ss))]"

text \<open>
  \<^verbatim>\<open>glob(session_data/*)\<close>: the names of the entries directly below the root, files
  or directories, hidden names excepted (no \<^verbatim>\<open>dot\<close> option).
\<close>

definition sweep_children :: "fs \<Rightarrow> path \<Rightarrow> string list" where
  "sweep_children f root =
     remdups [p ! length root. p \<leftarrow> fs_files f @ fs_dirs f,
              prefix root p \<and> length root < length p \<and> take 1 (p ! length root) \<noteq> ''.'']"

definition sweep_cb :: "config \<Rightarrow> sid list \<Rightarrow> string + string list \<Rightarrow> effect list" where
  "sweep_cb cfg keys res =
     (case res of
        Inl err \<Rightarrow> []
      | Inr folder_ids \<Rightarrow> [Spawn (Rimraf (session_data cfg @ [fid])). fid \<leftarrow> folder_ids, fid \<notin> set keys])"

definition rimraf :: "fs \<Rightarrow> path \<Rightarrow> fs" where
  "rimraf f p = \<lparr>fs_files = [q \<leftarrow> fs_files f. \<not> prefix p q], fs_dirs = [q \<leftarrow> fs_dirs f. \<not> prefix p q]\<rparr>"

definition handleChanges :: "config \<Rightarrow> state \<Rightarrow> state \<Rightarrow> effect list" where
  "handleChanges cfg prev_state st =
     (if state_equals st prev_state then []
      else concat (map (\<lambda>(i, s).
              if (case imap_get (sessions prev_state) i of None \<Rightarrow> False | Some p \<Rightarrow> session_equals s p)
              then [] else handleSessionChanges cfg s i) (sessions st))
           @ removeUnusedFiles (sessions st))"

fun is_dispatch :: "effect \<Rightarrow> bool" where
  "is_dispatch (Dispatch a) = True"
| "is_dispatch (Spawn t) = False"

text \<open>A session of the new state differs from its predecessor (or has none).\<close>

definition session_changed :: "state \<Rightarrow> sid \<Rightarrow> session \<Rightarrow> bool" where
  "session_changed prev i s \<longleftrightarrow>
     \<not> (case imap_get (sessions prev) i of None \<Rightarrow> False | Some p \<Rightarrow> session_equals s p)"

lemma session_equals_refl: "imap_wf (repos s) \<Longrightarrow> session_equals s s"
  by (simp add: session_equals_def imap_equals_by_refl)

lemma state_equals_refl: "store_wf st \<Longrightarrow> state_equals st st"
proof -
  assume wf: "store_wf st"
  have "imap_all session_wf (sessions st)" and "imap_wf (sessions st)"
    using wf by (simp_all add: store_wf_def)
  then have "imap_equals_by session_equals (sessions st) (sessions st)"
    unfolding imap_equals_by_def imap_all_def list_all_iff
    by (auto simp: session_wf_def session_equals_refl)
  then show ?thesis by (simp add: state_equals_def)
qed

lemma handleChanges_alt:
  "handleChanges cfg prev st =
     (if state_equals st prev then []
      else concat (map (\<lambda>(i, s). if \<not> session_changed prev i s then [] else handleSessionChanges cfg s i)
             (sessions st)) @ removeUnusedFiles (sessions st))"
  by (simp add: handleChanges_def session_changed_def)

lemma startClone_spawn [simp]:
  "Spawn (ExistsCheck a b c) \<in> set (startClone cfg i u) \<longleftrightarrow> a = i \<and> b = u \<and> c = hash cfg u"
  by (auto simp: startClone_def)

lemma getFiles_no_exists [simp]: "Spawn (ExistsCheck a b c) \<notin> set (getFiles i u sl)"
  by (simp add: getFiles_def setRepoStatus_def split: option.splits)

lemma handleSessionChanges_spawn:
  "Spawn (ExistsCheck a u sl) \<in> set (handleSessionChanges cfg s i) \<longleftrightarrow>
   a = i \<and> (\<exists>r. (u, r) \<in> set (repos s) \<and> repo_status r = Start) \<and> sl = hash cfg u"
  by (auto simp: handleSessionChanges_def)

lemma handleChanges_filter_dispatch:
  assumes "store_wf st"
  shows "filter is_dispatch (handleChanges cfg prev st) = []"
proof -
  have "repo_slug r \<noteq> None" if "(i, s) \<in> set (sessions st)" "(u, r) \<in> set (repos s)"
      "repo_status r = CloneDone" for i s u r
  proof -
    have "session_wf s" using assms that(1) by (auto simp: store_wf_def imap_all_def list_all_iff)
    then have "repo_wf r" using that(2) by (auto simp: session_wf_def imap_all_def list_all_iff)
    with that(3) show ?thesis by (simp add: repo_wf_def)
  qed
  then show ?thesis
    by (fastforce simp: handleChanges_def handleSessionChanges_def startClone_def getFiles_def
        removeUnusedFiles_def filter_empty_conv setRepoStatus_def split: option.splits if_splits)
qed

subsection \<open>Properties of the change reactor\<close>

text \<open>
  C20. When the store notifies without a change (the new state equals the previous
  snapshot), the listener performs no effect at all: it neither starts clones nor
  lists files nor sweeps.
\<close>

theorem handleChanges_unchanged: "store_wf st \<Longrightarrow> handleChanges cfg st st = []"
  by (simp add: handleChanges_def state_equals_refl)

theorem handleChanges_unchanged_witness:
  "store_wf initial_state \<and> handleChanges \<lparr>session_data = [''data''], sha1_hex = (\<lambda>_. ''abc''), max_clones_per_ip = 5, trust_proxy = False\<rparr> initial_state initial_state = []"
proof -
  have h: "store_wf initial_state" by (simp add: store_wf_def initial_state_def)
  from h handleChanges_unchanged [OF h] show ?thesis by simp
qed

text \<open>
  C21. The listener starts a clone (\<^verbatim>\<open>fs.exists\<close> on the slug folder) for a
  repository exactly when the state changed, the repository's session differs from its
  previous snapshot, and the repository's status is \<^verbatim>\<open>start\<close>; the slug is the
  hash of the URL. The status need not have just become \<^verbatim>\<open>start\<close>: any change of
  the session re-triggers every \<^verbatim>\<open>start\<close> entry.
\<close>

theorem handleChanges_spawns_clone:
  "Spawn (ExistsCheck i u sl) \<in> set (handleChanges cfg prev st) \<longleftrightarrow>
   \<not> state_equals st prev \<and>
   (\<exists>s r. (i, s) \<in> set (sessions st) \<and> session_changed prev i s \<and>
          (u, r) \<in> set (repos s) \<and> repo_status r = Start) \<and> sl = hash cfg u"
  by (auto simp: handleChanges_alt handleSessionChanges_spawn removeUnusedFiles_def)

text \<open>
  C22. On a well-formed state (every \<^verbatim>\<open>clone_done\<close> entry has a slug) the
  listener dispatches nothing synchronously: the no-slug branch of
  \<^verbatim>\<open>getFiles\<close> is unreachable and no nested dispatch happens inside a notification.
\<close>

theorem handleChanges_no_dispatch:
  assumes "store_wf st"
  shows "filter is_dispatch (handleChanges cfg prev st) = []"
  using assms by (rule handleChanges_filter_dispatch)

theorem handleChanges_no_dispatch_witness:
  "store_wf \<lparr>sessions = [(''s1'', \<lparr>repos = [(''u'', \<lparr>repo_status = CloneDone, repo_slug = Some ''abc'', repo_files = None\<rparr>)], timeout = None\<rparr>)]\<rparr> \<and>
   filter is_dispatch (handleChanges \<lparr>session_data = [''data''], sha1_hex = (\<lambda>_. ''abc''), max_clones_per_ip = 5, trust_proxy = False\<rparr> initial_state
     \<lparr>sessions = [(''s1'', \<lparr>repos = [(''u'', \<lparr>repo_status = CloneDone, repo_slug = Some ''abc'', repo_files = None\<rparr>)], timeout = None\<rparr>)]\<rparr>) = []"
proof -
  have h: "store_wf \<lparr>sessions = [(''s1'', \<lparr>repos = [(''u'', \<lparr>repo_status = CloneDone, repo_slug = Some ''abc'', repo_files = None\<rparr>)], timeout = None\<rparr>)]\<rparr>"
    by (simp add: store_wf_def session_wf_def repo_wf_def imap_all_def)
  from h handleChanges_no_dispatch [OF h] show ?thesis by simp
qed

text \<open>
  C23. Every path the file lister reports, taken relative to the session folder, starts
  with the slug and has at least one more segment; a second segment \<^verbatim>\<open>.git\<close>
  occurs only as the whole path \<^verbatim>\<open>slug/.git\<close> (a regular file named
  \<^verbatim>\<open>.git\<close>): nothing below the checkout's \<^verbatim>\<open>.git\<close> directory is listed.
\<close>

theorem glob_tree_relative:
  assumes "p \<in> set (glob_tree f (toFolder cfg i s))"
  shows "\<exists>rest. drop (length (session_data cfg @ [i])) p = s # rest \<and> rest \<noteq> [] \<and>
           (hd rest = ''.git'' \<longrightarrow> rest = [''.git''])"
proof -
  let ?F = "session_data cfg @ [i, s]"
  from assms have pre: "prefix ?F p" and len: "length ?F < length p"
    and ign: "\<not> (prefix (?F @ [''.git'']) p \<and> Suc (length ?F) < length p)"
    by (auto simp: glob_tree_def toFolder_def)
  from pre obtain rest where p: "p = ?F @ rest" by (auto simp: prefix_def)
  with len have ne: "rest \<noteq> []" by simp
  have "hd rest = ''.git'' \<longrightarrow> rest = [''.git'']"
    using ign p ne by (cases rest) auto
  with p ne show ?thesis by auto
qed

theorem glob_tree_relative_witness:
  "[''data'', ''s1'', ''a1b2c3d'', ''README.md''] \<in> set (glob_tree
      \<lparr>fs_files = [[''data'', ''s1'', ''a1b2c3d'', ''README.md''], [''data'', ''s1'', ''a1b2c3d'', ''.git'', ''HEAD'']],
       fs_dirs = []\<rparr> (toFolder \<lparr>session_data = [''data''], sha1_hex = (\<lambda>_. ''a1b2c3d4''), max_clones_per_ip = 5, trust_proxy = False\<rparr> ''s1'' ''a1b2c3d'')) \<and>
   drop (length ([''data''] @ [''s1''])) [''data'', ''s1'', ''a1b2c3d'', ''README.md''] = [''a1b2c3d'', ''README.md'']"
proof -
  have h: "[''data'', ''s1'', ''a1b2c3d'', ''README.md''] \<in> set (glob_tree
      \<lparr>fs_files = [[''data'', ''s1'', ''a1b2c3d'', ''README.md''], [''data'', ''s1'', ''a1b2c3d'', ''.git'', ''HEAD'']],
       fs_dirs = []\<rparr> (toFolder \<lparr>session_data = [''data''], sha1_hex = (\<lambda>_. ''a1b2c3d4''), max_clones_per_ip = 5, trust_proxy = False\<rparr> ''s1'' ''a1b2c3d''))"
    by (simp add: glob_tree_def toFolder_def)
  from h glob_tree_relative [OF h] show ?thesis by simp
qed

text \<open>
  The ignore pattern covers only the checkout's top-level \<^verbatim>\<open>.git\<close>: the metadata
  directory of a nested repository (a submodule or a vendored checkout) is listed.
\<close>

lemma glob_tree_lists_nested_git:
  "glob_tree \<lparr>fs_files = [[''data'', ''s1'', ''a1b2c3d'', ''sub'', ''.git'', ''config'']], fs_dirs = []\<rparr>
      [''data'', ''s1'', ''a1b2c3d''] = [[''data'', ''s1'', ''a1b2c3d'', ''sub'', ''.git'', ''config'']]"
  by (simp add: glob_tree_def)

text \<open>
  C24. The sweep of \<^verbatim>\<open>removeUnusedFiles\<close> schedules deletions only of folders
  directly below the session root whose name is not among the session ids it was given
  when it was scheduled.
\<close>

theorem sweep_cb_spares_live:
  "Spawn (Rimraf p) \<in> set (sweep_cb cfg keys res) \<Longrightarrow>
   \<exists>fid. p = session_data cfg @ [fid] \<and> fid \<notin> set keys"
  by (auto simp: sweep_cb_def split: sum.splits)

theorem sweep_cb_spares_live_witness:
  "Spawn (Rimraf [''data'', ''old'']) \<in> set (sweep_cb \<lparr>session_data = [''data''], sha1_hex = (\<lambda>_. ''abc''), max_clones_per_ip = 5, trust_proxy = False\<rparr>
      [''s1''] (Inr [''s1'', ''old''])) \<and> ''old'' \<notin> set [''s1'']"
proof -
  have h: "Spawn (Rimraf [''data'', ''old'']) \<in> set (sweep_cb \<lparr>session_data = [''data''], sha1_hex = (\<lambda>_. ''abc''), max_clones_per_ip = 5, trust_proxy = False\<rparr>
      [''s1''] (Inr [''s1'', ''old'']))"
    by (simp add: sweep_cb_def)
  from h sweep_cb_spares_live [OF h] show ?thesis by simp
qed

end
