(* ===== verification/System.thy ===== *)
theory System
  imports Reactor
begin

text \<open>
  The running program as an event loop. The redux store holds the state; its one
  subscriber of \<^verbatim>\<open>handle_changes.js\<close> keeps \<^verbatim>\<open>prev_state\<close>; pending asynchronous
  operations (\<^verbatim>\<open>fs.exists\<close>, git child processes, \<^verbatim>\<open>glob\<close>, \<^verbatim>\<open>rimraf\<close>) form an
  unordered pool; the disk is the session data tree.

  \<open>dispatch\<close> is redux's \<^verbatim>\<open>dispatch\<close>: apply the reducer, then run the listener
  synchronously on the new state; a dispatch made by the listener runs nested, to
  completion, before the listener continues, and the listener sets
  \<^verbatim>\<open>prev_state\<close> to the state it was called for when it returns. The nesting depth is
  bounded by fuel: \<open>None\<close> is running out. \<open>sys_step\<close> is one turn of the event loop:
  a request dispatches an action of the HTTP layer (\<^verbatim>\<open>startClone\<close> from
  \<^verbatim>\<open>POST /\<close>, \<^verbatim>\<open>setTimeout\<close> from the session middleware, \<^verbatim>\<open>removeSession\<close>
  from an expired timer), or any pending operation completes and its callback runs; the
  environment chooses the exit code of a git process, the files it checks out, and
  whether a \<^verbatim>\<open>glob\<close> or \<^verbatim>\<open>rimraf\<close> fails.
\<close>

record sys =
  store :: state
  prev :: state
  tasks :: "task list"
  disk :: fs

fun dispatch :: "nat \<Rightarrow> config \<Rightarrow> sys \<Rightarrow> action \<Rightarrow> sys option"
and run_effects :: "nat \<Rightarrow> config \<Rightarrow> sys \<Rightarrow> effect list \<Rightarrow> sys option" where
  "dispatch 0 cfg s a = None"
| "dispatch (Suc n) cfg s a =
     (let st = store_reduce (store s) a
      in map_option (\<lambda>s'. s'\<lparr>prev := st\<rparr>)
           (run_effects n cfg (s\<lparr>store := st\<rparr>) (handleChanges cfg (prev s) st)))"
| "run_effects n cfg s [] = Some s"
| "run_effects n cfg s (Spawn t # es) = run_effects n cfg (s\<lparr>tasks := tasks s @ [t]\<rparr>) es"
| "run_effects n cfg s (Dispatch a # es) =
     (case dispatch n cfg s a of None \<Rightarrow> None | Some s' \<Rightarrow> run_effects n cfg s' es)"

definition init_sys :: "config \<Rightarrow> sys" where
  "init_sys cfg = \<lparr>store = initial_state, prev = initial_state, tasks = [],
                   disk = \<lparr>fs_files = [], fs_dirs = [session_data cfg]\<rparr>\<rparr>"

text \<open>
  The actions the HTTP layer of \<^verbatim>\<open>app.js\<close> dispatches: \<^verbatim>\<open>startClone\<close> from
  \<^verbatim>\<open>POST /\<close> (always with a session id), \<^verbatim>\<open>setTimeout\<close> from
  \<^verbatim>\<open>setRemovalTimeout\<close> and \<^verbatim>\<open>removeSession\<close> from the timer it sets; the
  session middleware calls \<^verbatim>\<open>setRemovalTimeout\<close> before a new cookie has an id, so
  those two may carry none.
\<close>

fun request_action :: "action \<Rightarrow> bool" where
  "request_action a \<longleftrightarrow>
     (case act_body a of StartClone _ \<Rightarrow> act_session_id a \<noteq> None | SetTimeout _ \<Rightarrow> True
      | RemoveSession v \<Rightarrow> v = None | SetRepoStatus _ \<Rightarrow> False)"

fun git_folder :: "git_cmd \<Rightarrow> path" where
  "git_folder (GitFetch folder) = folder"
| "git_folder (GitClone u folder) = folder"

text \<open>A successful clone or fetch leaves the folder (and its parent) with the files checked out.\<close>

definition checkout :: "fs \<Rightarrow> path \<Rightarrow> path list \<Rightarrow> fs" where
  "checkout f folder files =
     \<lparr>fs_files = fs_files f @ map (\<lambda>p. folder @ p) files,
      fs_dirs = fs_dirs f @ [butlast folder, folder]\<rparr>"

inductive sys_step :: "config \<Rightarrow> sys \<Rightarrow> sys \<Rightarrow> bool" for cfg where
  request:
    "request_action a \<Longrightarrow> dispatch n cfg s a = Some s' \<Longrightarrow> sys_step cfg s s'"
| exists_done:
    "tasks s = xs @ ExistsCheck i u sl # ys \<Longrightarrow>
     run_effects n cfg (s\<lparr>tasks := xs @ ys\<rparr>)
       (exists_cb cfg i u sl (toFolder cfg i sl \<in> set (fs_dirs (disk s)))) = Some s' \<Longrightarrow>
     sys_step cfg s s'"
| git_exit:
    "tasks s = xs @ GitProc i u c # ys \<Longrightarrow>
     d' = (if code = 0 then checkout (disk s) (git_folder c) files else disk s) \<Longrightarrow>
     run_effects n cfg (s\<lparr>tasks := xs @ ys, disk := d'\<rparr>) (reportStatus i u code) = Some s' \<Longrightarrow>
     sys_step cfg s s'"
| list_done:
    "tasks s = xs @ ListFiles i u sl # ys \<Longrightarrow>
     res = Inr (glob_tree (disk s) (toFolder cfg i sl)) \<or> (\<exists>e. res = Inl e) \<Longrightarrow>
     run_effects n cfg (s\<lparr>tasks := xs @ ys\<rparr>) (files_cb cfg i u res) = Some s' \<Longrightarrow>
     sys_step cfg s s'"
| sweep_done:
    "tasks s = xs @ SweepGlob keys # ys \<Longrightarrow>
     res = Inr (sweep_children (disk s) (session_data cfg)) \<or> (\<exists>e. res = Inl e) \<Longrightarrow>
     run_effects n cfg (s\<lparr>tasks := xs @ ys\<rparr>) (sweep_cb cfg keys res) = Some s' \<Longrightarrow>
     sys_step cfg s s'"
| rimraf_done:
    "tasks s = xs @ Rimraf p # ys \<Longrightarrow>
     d' = rimraf (disk s) p \<or> d' = disk s \<Longrightarrow>
     sys_step cfg s (s\<lparr>tasks := xs @ ys, disk := d'\<rparr>)"

text \<open>
  Completing one pending operation \<open>t\<close> whose callback runs on the state with the other
  pending operations \<open>rest\<close>: \<open>ok\<close> is the environment's outcome (exit code 0 or 1 of
  git with nothing checked out on failure, a result or an error of \<^verbatim>\<open>glob\<close>, a
  removal or a failure of \<^verbatim>\<open>rimraf\<close>); the callbacks are those of
  \<^verbatim>\<open>handle_changes.js\<close> the step rules run.
\<close>

fun complete :: "nat \<Rightarrow> config \<Rightarrow> sys \<Rightarrow> task list \<Rightarrow> task \<Rightarrow> bool \<Rightarrow> sys option" where
  "complete n cfg s rest (ExistsCheck i u sl) ok =
     run_effects n cfg (s\<lparr>tasks := rest\<rparr>) (exists_cb cfg i u sl (toFolder cfg i sl \<in> set (fs_dirs (disk s))))"
| "complete n cfg s rest (GitProc i u c) ok =
     run_effects n cfg (s\<lparr>tasks := rest, disk := (if ok then checkout (disk s) (git_folder c) [] else disk s)\<rparr>)
       (reportStatus i u (if ok then 0 else 1))"
| "complete n cfg s rest (ListFiles i u sl) ok =
     run_effects n cfg (s\<lparr>tasks := rest\<rparr>)
       (files_cb cfg i u (if ok then Inr (glob_tree (disk s) (toFolder cfg i sl)) else Inl ''error''))"
| "complete n cfg s rest (SweepGlob keys) ok =
     run_effects n cfg (s\<lparr>tasks := rest\<rparr>)
       (sweep_cb cfg keys (if ok then Inr (sweep_children (disk s) (session_data cfg)) else Inl ''error''))"
| "complete n cfg s rest (Rimraf p) ok =
     Some (s\<lparr>tasks := rest, disk := (if ok then rimraf (disk s) p else disk s)\<rparr>)"

inductive reach :: "config \<Rightarrow> sys \<Rightarrow> bool" for cfg where
  init: "reach cfg (init_sys cfg)"
| step: "reach cfg s \<Longrightarrow> sys_step cfg s s' \<Longrightarrow> reach cfg s'"

text \<open>Every action an effect list dispatches is of the program's vocabulary.\<close>

definition effects_ok :: "effect list \<Rightarrow> bool" where
  "effects_ok es \<longleftrightarrow> (\<forall>a. Dispatch a \<in> set es \<longrightarrow> action_ok (act_body a))"

text \<open>A configuration used by the witnesses: data under \<^verbatim>\<open>data/\<close>, a fixed digest.\<close>

definition example_cfg :: config where
  "example_cfg = \<lparr>session_data = [''data''], sha1_hex = (\<lambda>_. ''a1b2c3d4e5''), max_clones_per_ip = 5, trust_proxy = False\<rparr>"

lemma effects_ok_simps [simp]:
  "effects_ok []"
  "effects_ok (Spawn t # es) \<longleftrightarrow> effects_ok es"
  "effects_ok (Dispatch a # es) \<longleftrightarrow> action_ok (act_body a) \<and> effects_ok es"
  "effects_ok (es @ fs) \<longleftrightarrow> effects_ok es \<and> effects_ok fs"
  by (auto simp: effects_ok_def)

lemma setRepoStatus_ok:
  "Dispatch a = setRepoStatus i u st sl fl \<Longrightarrow>
   action_ok (act_body a) \<longleftrightarrow> action_ok (SetRepoStatus \<lparr>upd_url = u, upd_status = st, upd_slug = sl, upd_files = fl\<rparr>)"
  by (auto simp: setRepoStatus_def)

lemma handleChanges_ok: "effects_ok (handleChanges cfg p st)"
  by (auto simp: effects_ok_def handleChanges_def handleSessionChanges_def startClone_def getFiles_def
      removeUnusedFiles_def setRepoStatus_def split: option.splits if_splits)

lemma exists_cb_ok: "effects_ok (exists_cb cfg i u sl ex)"
  by (simp add: exists_cb_def setRepoStatus_def)

lemma reportStatus_ok: "effects_ok (reportStatus i u code)"
  by (simp add: reportStatus_def setRepoStatus_def)

lemma files_cb_ok: "effects_ok (files_cb cfg i u res)"
  by (simp add: files_cb_def setRepoStatus_def split: sum.splits)

lemma sweep_cb_ok: "effects_ok (sweep_cb cfg keys res)"
  by (auto simp: sweep_cb_def effects_ok_def split: sum.splits)

lemma dispatch_run_effects_wf:
  "dispatch n cfg s a = Some s' \<Longrightarrow> store_wf (store s) \<Longrightarrow> action_ok (act_body a) \<Longrightarrow> store_wf (store s')"
  "run_effects n cfg s es = Some s' \<Longrightarrow> store_wf (store s) \<Longrightarrow> effects_ok es \<Longrightarrow> store_wf (store s')"
proof (induction n cfg s a and n cfg s es arbitrary: s' and s' rule: dispatch_run_effects.induct)
  case (2 n cfg s a)
  then show ?case
    by (auto simp: Let_def handleChanges_ok store_reduce_wf)
next
  case (5 n cfg s a es)
  then show ?case by (auto split: option.splits)
qed auto

lemma run_effects_spawns:
  "filter is_dispatch es = [] \<Longrightarrow> \<exists>s'. run_effects n cfg s es = Some s'"
proof (induction es arbitrary: s)
  case (Cons e es)
  then show ?case by (cases e) auto
qed simp

lemma reach_request:
  "reach cfg s \<Longrightarrow> request_action a \<Longrightarrow> dispatch n cfg s a = Some s' \<Longrightarrow> reach cfg s'"
  by (blast intro: reach.step sys_step.request)

lemma reach_exists:
  "reach cfg s \<Longrightarrow> tasks s = xs @ ExistsCheck i u sl # ys \<Longrightarrow>
   run_effects n cfg (s\<lparr>tasks := xs @ ys\<rparr>) (exists_cb cfg i u sl (toFolder cfg i sl \<in> set (fs_dirs (disk s)))) = Some s' \<Longrightarrow>
   reach cfg s'"
  by (blast intro: reach.step sys_step.exists_done)

lemma reach_git:
  "reach cfg s \<Longrightarrow> tasks s = xs @ GitProc i u c # ys \<Longrightarrow>
   d' = (if code = 0 then checkout (disk s) (git_folder c) files else disk s) \<Longrightarrow>
   run_effects n cfg (s\<lparr>tasks := xs @ ys, disk := d'\<rparr>) (reportStatus i u code) = Some s' \<Longrightarrow>
   reach cfg s'"
  by (blast intro: reach.step sys_step.git_exit)

lemma reach_sweep:
  "reach cfg s \<Longrightarrow> tasks s = xs @ SweepGlob keys # ys \<Longrightarrow>
   run_effects n cfg (s\<lparr>tasks := xs @ ys\<rparr>) (sweep_cb cfg keys (Inr (sweep_children (disk s) (session_data cfg)))) = Some s' \<Longrightarrow>
   reach cfg s'"
  by (blast intro: reach.step sys_step.sweep_done)

lemma reach_wf: "reach cfg s \<Longrightarrow> store_wf (store s)"
proof (induction rule: reach.induct)
  case init
  show ?case by (simp add: init_sys_def store_wf_def initial_state_def)
next
  case (step s s')
  from step.hyps(2) step.IH show ?case
  proof (cases rule: sys_step.cases)
    case (request a n)
    then show ?thesis using step.IH
      by (auto elim!: dispatch_run_effects_wf(1) split: action_body.splits)
  qed (auto elim!: dispatch_run_effects_wf(2) simp: exists_cb_ok reportStatus_ok files_cb_ok sweep_cb_ok)
qed

lemma dispatch_some:
  assumes "store_wf (store s)" and "action_ok (act_body a)"
  shows "\<exists>s'. dispatch (Suc n) cfg s a = Some s'"
proof -
  have "store_wf (store_reduce (store s) a)" using assms by (rule store_reduce_wf)
  then have "filter is_dispatch (handleChanges cfg (prev s) (store_reduce (store s) a)) = []"
    by (rule handleChanges_filter_dispatch)
  then obtain s' where "run_effects n cfg (s\<lparr>store := store_reduce (store s) a\<rparr>)
      (handleChanges cfg (prev s) (store_reduce (store s) a)) = Some s'"
    using run_effects_spawns by blast
  then show ?thesis by (simp add: Let_def)
qed

lemma run_effects_enough_fuel:
  "store_wf (store s) \<Longrightarrow> effects_ok es \<Longrightarrow> \<exists>s'. run_effects (Suc n) cfg s es = Some s'"
proof (induction es arbitrary: s)
  case (Cons e es)
  show ?case
  proof (cases e)
    case (Dispatch a)
    from Cons.prems Dispatch have ok: "action_ok (act_body a)" by simp
    obtain s1 where d: "dispatch (Suc n) cfg s a = Some s1"
      using dispatch_some [OF Cons.prems(1) ok] by blast
    have "store_wf (store s1)"
      using dispatch_run_effects_wf(1) [OF d Cons.prems(1) ok] .
    then obtain s2 where "run_effects (Suc n) cfg s1 es = Some s2"
      using Cons.IH Cons.prems(2) Dispatch by auto
    with d Dispatch show ?thesis by simp
  next
    case (Spawn t)
    with Cons show ?thesis by simp
  qed
qed simp

subsection \<open>Properties of the running program\<close>

text \<open>
  C25. In every reachable state of the event loop the store is well-formed: every
  \<^verbatim>\<open>clone_done\<close> or \<^verbatim>\<open>done\<close> entry has a slug and only \<^verbatim>\<open>done\<close> entries carry
  files, whatever the interleaving of requests and callbacks.
\<close>

theorem reach_store_wf: "reach cfg s \<Longrightarrow> store_wf (store s)"
  by (rule reach_wf)

theorem reach_store_wf_witness:
  "reach example_cfg (init_sys example_cfg) \<and> store_wf (store (init_sys example_cfg))"
  using reach.init reach_store_wf [OF reach.init [of example_cfg]] by blast

text \<open>
  C26. On a well-formed store a dispatch of an action of the vocabulary never runs out
  of fuel with one level: the listener makes no nested dispatch, so redux's dispatch
  returns.
\<close>

theorem dispatch_enough_fuel:
  "store_wf (store s) \<Longrightarrow> action_ok (act_body a) \<Longrightarrow> \<exists>s'. dispatch (Suc n) cfg s a = Some s'"
  by (rule dispatch_some)

theorem dispatch_enough_fuel_witness:
  "store_wf initial_state \<and> action_ok (StartClone ''u'') \<and>
   (\<exists>s'. dispatch (Suc 0) example_cfg (init_sys example_cfg)
           \<lparr>act_session_id = Some ''s1'', act_body = StartClone ''u''\<rparr> = Some s')"
proof -
  have h1: "store_wf (store (init_sys example_cfg))"
    by (simp add: init_sys_def store_wf_def initial_state_def)
  have h2: "action_ok (act_body \<lparr>act_session_id = Some ''s1'', act_body = StartClone ''u''\<rparr>)"
    by simp
  from dispatch_enough_fuel [OF h1 h2, of 0 example_cfg] h1 show ?thesis
    by (simp add: init_sys_def)
qed

lemma dispatch_run_effects_tasks:
  "dispatch n cfg s a = Some s' \<Longrightarrow> \<exists>new. tasks s' = tasks s @ new"
  "run_effects n cfg s es = Some s' \<Longrightarrow> \<exists>new. tasks s' = tasks s @ new"
proof (induction n cfg s a and n cfg s es arbitrary: s' and s' rule: dispatch_run_effects.induct)
  case (2 n cfg s a)
  then show ?case by (auto simp: Let_def)
next
  case (4 n cfg s t es)
  then show ?case by fastforce
next
  case (5 n cfg s a es)
  then show ?case by (fastforce split: option.splits)
qed auto

lemma complete_step:
  assumes "tasks s = xs @ t # ys" and "complete n cfg s (xs @ ys) t ok = Some s'"
  shows "sys_step cfg s s'"
proof (cases t)
  case (ExistsCheck i u sl)
  with assms show ?thesis by (auto intro: sys_step.exists_done)
next
  case (GitProc i u c)
  let ?code = "if ok then 0 else (1::int)"
  have d: "(if ok then checkout (disk s) (git_folder c) [] else disk s) =
           (if ?code = 0 then checkout (disk s) (git_folder c) [] else disk s)" by simp
  from assms GitProc have "run_effects n cfg (s\<lparr>tasks := xs @ ys,
      disk := (if ok then checkout (disk s) (git_folder c) [] else disk s)\<rparr>) (reportStatus i u ?code) = Some s'"
    by simp
  from sys_step.git_exit [OF assms(1) [unfolded GitProc] d this] show ?thesis .
next
  case (ListFiles i u sl)
  with assms show ?thesis by (auto intro: sys_step.list_done split: if_splits)
next
  case (SweepGlob keys)
  with assms show ?thesis by (auto intro: sys_step.sweep_done split: if_splits)
next
  case (Rimraf p)
  have "(if ok then rimraf (disk s) p else disk s) = rimraf (disk s) p \<or>
        (if ok then rimraf (disk s) p else disk s) = disk s" by simp
  from sys_step.rimraf_done [OF assms(1) [unfolded Rimraf] this] assms(2) Rimraf show ?thesis by simp
qed

lemma complete_some:
  assumes "store_wf (store s)"
  shows "\<exists>s'. complete (Suc n) cfg s rest t ok = Some s'"
proof -
  have wf: "store_wf (store (s\<lparr>tasks := ts, disk := d\<rparr>))" "store_wf (store (s\<lparr>tasks := ts\<rparr>))" for ts d
    using assms by simp_all
  show ?thesis
    by (cases t) (simp_all add: run_effects_enough_fuel [OF wf(1)] run_effects_enough_fuel [OF wf(2)]
        exists_cb_ok reportStatus_ok files_cb_ok sweep_cb_ok)
qed

lemma complete_tasks:
  "complete n cfg s rest t ok = Some s' \<Longrightarrow> \<exists>new. tasks s' = rest @ new"
  by (cases t) (auto dest!: dispatch_run_effects_tasks(2))

text \<open>
  C27. Progress: in every reachable state every pending operation can complete, with
  either outcome the environment chooses, and its callback runs to the end with one
  level of nested dispatch; this is a step of the event loop that consumes that
  operation, keeps the other pending ones in their order and only adds new ones.
\<close>

theorem sys_progress:
  assumes "reach cfg s" and "tasks s = xs @ t # ys"
  shows "\<exists>s'. complete (Suc 0) cfg s (xs @ ys) t ok = Some s' \<and> sys_step cfg s s' \<and>
              (\<exists>new. tasks s' = xs @ ys @ new)"
proof -
  obtain s' where c: "complete (Suc 0) cfg s (xs @ ys) t ok = Some s'"
    using complete_some [OF reach_wf [OF assms(1)]] by blast
  then show ?thesis using complete_step [OF assms(2) c] complete_tasks [OF c] by auto
qed

theorem sys_progress_witness:
  "reach example_cfg
     \<lparr>store = \<lparr>sessions = [(''s1'', \<lparr>repos = [(''u'', \<lparr>repo_status = Start, repo_slug = None, repo_files = None\<rparr>)], timeout = None\<rparr>)]\<rparr>,
      prev = \<lparr>sessions = [(''s1'', \<lparr>repos = [(''u'', \<lparr>repo_status = Start, repo_slug = None, repo_files = None\<rparr>)], timeout = None\<rparr>)]\<rparr>,
      tasks = [ExistsCheck ''s1'' ''u'' ''a1b2c3d'', SweepGlob [''s1'']], disk = \<lparr>fs_files = [], fs_dirs = [[''data'']]\<rparr>\<rparr> \<and>
   (\<exists>s'. complete (Suc 0) example_cfg
     \<lparr>store = \<lparr>sessions = [(''s1'', \<lparr>repos = [(''u'', \<lparr>repo_status = Start, repo_slug = None, repo_files = None\<rparr>)], timeout = None\<rparr>)]\<rparr>,
      prev = \<lparr>sessions = [(''s1'', \<lparr>repos = [(''u'', \<lparr>repo_status = Start, repo_slug = None, repo_files = None\<rparr>)], timeout = None\<rparr>)]\<rparr>,
      tasks = [ExistsCheck ''s1'' ''u'' ''a1b2c3d'', SweepGlob [''s1'']], disk = \<lparr>fs_files = [], fs_dirs = [[''data'']]\<rparr>\<rparr>
     [SweepGlob [''s1'']] (ExistsCheck ''s1'' ''u'' ''a1b2c3d'') True = Some s' \<and>
   sys_step example_cfg
     \<lparr>store = \<lparr>sessions = [(''s1'', \<lparr>repos = [(''u'', \<lparr>repo_status = Start, repo_slug = None, repo_files = None\<rparr>)], timeout = None\<rparr>)]\<rparr>,
      prev = \<lparr>sessions = [(''s1'', \<lparr>repos = [(''u'', \<lparr>repo_status = Start, repo_slug = None, repo_files = None\<rparr>)], timeout = None\<rparr>)]\<rparr>,
      tasks = [ExistsCheck ''s1'' ''u'' ''a1b2c3d'', SweepGlob [''s1'']], disk = \<lparr>fs_files = [], fs_dirs = [[''data'']]\<rparr>\<rparr> s' \<and>
   (\<exists>new. tasks s' = SweepGlob [''s1''] # new))"
proof -
  have r: "reach example_cfg
     \<lparr>store = \<lparr>sessions = [(''s1'', \<lparr>repos = [(''u'', \<lparr>repo_status = Start, repo_slug = None, repo_files = None\<rparr>)], timeout = None\<rparr>)]\<rparr>,
      prev = \<lparr>sessions = [(''s1'', \<lparr>repos = [(''u'', \<lparr>repo_status = Start, repo_slug = None, repo_files = None\<rparr>)], timeout = None\<rparr>)]\<rparr>,
      tasks = [ExistsCheck ''s1'' ''u'' ''a1b2c3d'', SweepGlob [''s1'']], disk = \<lparr>fs_files = [], fs_dirs = [[''data'']]\<rparr>\<rparr>"
    by (rule reach_request [OF reach.init, where a = "\<lparr>act_session_id = Some ''s1'', act_body = StartClone ''u''\<rparr>"
          and n = 1])
       (simp_all add: Let_def example_cfg_def hash_def init_sys_def store_reduce_def initial_state_def
         empty_session_def store_startClone_def start_entry_def handleChanges_def state_equals_def
         imap_equals_by_def handleSessionChanges_def startClone_def removeUnusedFiles_def)
  have t: "tasks \<lparr>store = \<lparr>sessions = [(''s1'', \<lparr>repos = [(''u'', \<lparr>repo_status = Start, repo_slug = None, repo_files = None\<rparr>)], timeout = None\<rparr>)]\<rparr>,
      prev = \<lparr>sessions = [(''s1'', \<lparr>repos = [(''u'', \<lparr>repo_status = Start, repo_slug = None, repo_files = None\<rparr>)], timeout = None\<rparr>)]\<rparr>,
      tasks = [ExistsCheck ''s1'' ''u'' ''a1b2c3d'', SweepGlob [''s1'']], disk = \<lparr>fs_files = [], fs_dirs = [[''data'']]\<rparr>\<rparr> =
     [] @ ExistsCheck ''s1'' ''u'' ''a1b2c3d'' # [SweepGlob [''s1'']]"
    by simp
  from r sys_progress [OF r t, of True] show ?thesis by simp
qed

text \<open>
  C28. The primary invariant of spec section 4.3 fails: there is a reachable state with
  two git clone processes of the same URL running into the same folder. A second
  request of the session (here the \<^verbatim>\<open>setTimeout\<close> of the session middleware)
  changes the session while its entry is still \<^verbatim>\<open>start\<close>, because
  \<^verbatim>\<open>cloning\<close> is only dispatched in the \<^verbatim>\<open>fs.exists\<close> callback; the listener
  then starts a second clone, and both \<^verbatim>\<open>fs.exists\<close> callbacks launch git.
\<close>

theorem duplicate_clone_reachable:
  "\<exists>s. reach cfg s \<and>
     length (filter (\<lambda>t. t = GitProc ''s1'' ''u'' (GitClone ''u'' (toFolder cfg ''s1'' (hash cfg ''u''))))
       (tasks s)) = 2"
proof -
  define h where "h = hash cfg ''u''"
  define D0 where "D0 = \<lparr>fs_files = [], fs_dirs = [session_data cfg]\<rparr>"
  define e0 where "e0 = \<lparr>repo_status = Start, repo_slug = None, repo_files = (None :: string list option)\<rparr>"
  define e1 where "e1 = \<lparr>repo_status = Cloning, repo_slug = Some h, repo_files = (None :: string list option)\<rparr>"
  define GP where "GP = GitProc ''s1'' ''u'' (GitClone ''u'' (toFolder cfg ''s1'' h))"
  define ST1 where "ST1 = \<lparr>sessions = [(''s1'', \<lparr>repos = [(''u'', e0)], timeout = None\<rparr>)]\<rparr>"
  define ST2 where "ST2 = \<lparr>sessions = [(''s1'', \<lparr>repos = [(''u'', e0)], timeout = Some 1\<rparr>)]\<rparr>"
  define ST3 where "ST3 = \<lparr>sessions = [(''s1'', \<lparr>repos = [(''u'', e1)], timeout = Some 1\<rparr>)]\<rparr>"
  define S1 where "S1 = \<lparr>store = ST1, prev = ST1, tasks = [ExistsCheck ''s1'' ''u'' h, SweepGlob [''s1'']], disk = D0\<rparr>"
  define S2 where "S2 = \<lparr>store = ST2, prev = ST2,
      tasks = [ExistsCheck ''s1'' ''u'' h, SweepGlob [''s1''], ExistsCheck ''s1'' ''u'' h, SweepGlob [''s1'']], disk = D0\<rparr>"
  define S3 where "S3 = \<lparr>store = ST3, prev = ST3,
      tasks = [SweepGlob [''s1''], ExistsCheck ''s1'' ''u'' h, SweepGlob [''s1''], GP, SweepGlob [''s1'']], disk = D0\<rparr>"
  define S4 where "S4 = \<lparr>store = ST3, prev = ST3,
      tasks = [SweepGlob [''s1''], SweepGlob [''s1''], GP, SweepGlob [''s1''], GP], disk = D0\<rparr>"
  have nodir: "toFolder cfg ''s1'' h \<notin> set (fs_dirs D0)"
    by (simp add: D0_def toFolder_def)
  have r1: "reach cfg S1"
    by (rule reach_request [OF reach.init, where a = "\<lparr>act_session_id = Some ''s1'', act_body = StartClone ''u''\<rparr>" and n = 1])
       (simp_all add: Let_def S1_def ST1_def e0_def D0_def h_def init_sys_def store_reduce_def initial_state_def
         empty_session_def store_startClone_def start_entry_def handleChanges_def state_equals_def
         imap_equals_by_def handleSessionChanges_def startClone_def removeUnusedFiles_def)
  have r2: "reach cfg S2"
    by (rule reach_request [OF r1, where a = "\<lparr>act_session_id = Some ''s1'', act_body = SetTimeout 1\<rparr>" and n = 1])
       (simp_all add: Let_def S1_def S2_def ST1_def ST2_def e0_def store_reduce_def store_setTimeout_def
         handleChanges_def state_equals_def imap_equals_by_def session_equals_def handleSessionChanges_def
         startClone_def h_def removeUnusedFiles_def)
  have r3: "reach cfg S3"
    by (rule reach_exists [OF r2, where xs = "[]" and i = "''s1''" and u = "''u''" and sl = h
        and ys = "[SweepGlob [''s1''], ExistsCheck ''s1'' ''u'' h, SweepGlob [''s1'']]" and n = 1])
       (simp_all add: Let_def S2_def S3_def ST2_def ST3_def e0_def e1_def GP_def nodir exists_cb_def clone_def
         setRepoStatus_def store_reduce_def store_setRepoStatus_def handleChanges_def state_equals_def
         imap_equals_by_def session_equals_def handleSessionChanges_def removeUnusedFiles_def)
  have r4: "reach cfg S4"
    by (rule reach_exists [OF r3, where xs = "[SweepGlob [''s1'']]" and i = "''s1''" and u = "''u''" and sl = h
        and ys = "[SweepGlob [''s1''], GP, SweepGlob [''s1'']]" and n = 1])
       (simp_all add: Let_def S3_def S4_def ST3_def e1_def GP_def nodir exists_cb_def clone_def
         setRepoStatus_def store_reduce_def store_setRepoStatus_def handleChanges_def state_equals_def
         imap_equals_by_def session_equals_def)
  have "length (filter (\<lambda>t. t = GP) (tasks S4)) = 2"
    by (simp add: S4_def GP_def)
  with r4 show ?thesis unfolding GP_def h_def by blast
qed

text \<open>
  C29. The sweep works from the keys of the snapshot that scheduled it: a session
  removed by its timer and re-created by the next request before the sweep's
  \<^verbatim>\<open>glob\<close> returns gets its folder scheduled for deletion while it is live.
\<close>

theorem stale_sweep_targets_live_session:
  "\<exists>s. reach cfg s \<and> imap_get (sessions (store s)) ''s1'' \<noteq> None \<and>
     butlast (toFolder cfg ''s1'' (hash cfg ''u'')) \<in> set (fs_dirs (disk s)) \<and>
     Rimraf (session_data cfg @ [''s1'']) \<in> set (tasks s)"
proof -
  define h where "h = hash cfg ''u''"
  define sd where "sd = session_data cfg"
  define F where "F = toFolder cfg ''s1'' h"
  define D0 where "D0 = \<lparr>fs_files = [], fs_dirs = [sd]\<rparr>"
  define D1 where "D1 = \<lparr>fs_files = [F @ [''README.md'']], fs_dirs = [sd, sd @ [''s1''], F]\<rparr>"
  define e0 where "e0 = \<lparr>repo_status = Start, repo_slug = None, repo_files = (None :: string list option)\<rparr>"
  define e1 where "e1 = \<lparr>repo_status = Cloning, repo_slug = Some h, repo_files = (None :: string list option)\<rparr>"
  define e2 where "e2 = \<lparr>repo_status = CloneDone, repo_slug = Some h, repo_files = (None :: string list option)\<rparr>"
  define GP where "GP = GitProc ''s1'' ''u'' (GitClone ''u'' F)"
  define SG where "SG = SweepGlob [''s1'']"
  define LF where "LF = ListFiles ''s1'' ''u'' h"
  define ST1 where "ST1 = \<lparr>sessions = [(''s1'', \<lparr>repos = [(''u'', e0)], timeout = None\<rparr>)]\<rparr>"
  define ST2 where "ST2 = \<lparr>sessions = [(''s1'', \<lparr>repos = [(''u'', e1)], timeout = None\<rparr>)]\<rparr>"
  define ST3 where "ST3 = \<lparr>sessions = [(''s1'', \<lparr>repos = [(''u'', e2)], timeout = None\<rparr>)]\<rparr>"
  define ST4 where "ST4 = \<lparr>sessions = ([] :: (sid, session) imap)\<rparr>"
  define ST5 where "ST5 = \<lparr>sessions = [(''s1'', \<lparr>repos = [], timeout = Some 2\<rparr>)]\<rparr>"
  define S1 where "S1 = \<lparr>store = ST1, prev = ST1, tasks = [ExistsCheck ''s1'' ''u'' h, SG], disk = D0\<rparr>"
  define S2 where "S2 = \<lparr>store = ST2, prev = ST2, tasks = [SG, GP, SG], disk = D0\<rparr>"
  define S3 where "S3 = \<lparr>store = ST3, prev = ST3, tasks = [SG, SG, LF, SG], disk = D1\<rparr>"
  define S4 where "S4 = \<lparr>store = ST4, prev = ST4, tasks = [SG, SG, LF, SG, SweepGlob []], disk = D1\<rparr>"
  define S5 where "S5 = \<lparr>store = ST5, prev = ST5, tasks = [SG, SG, LF, SG, SweepGlob [], SG], disk = D1\<rparr>"
  define S6 where "S6 = \<lparr>store = ST5, prev = ST5, tasks = [SG, SG, LF, SG, SG, Rimraf (sd @ [''s1''])], disk = D1\<rparr>"
  have nodir: "F \<notin> set (fs_dirs D0)"
    by (simp add: D0_def F_def sd_def toFolder_def)
  have r1: "reach cfg S1"
    by (rule reach_request [OF reach.init, where a = "\<lparr>act_session_id = Some ''s1'', act_body = StartClone ''u''\<rparr>" and n = 1])
       (simp_all add: Let_def S1_def ST1_def e0_def D0_def sd_def SG_def h_def init_sys_def store_reduce_def
         initial_state_def empty_session_def store_startClone_def start_entry_def handleChanges_def
         state_equals_def imap_equals_by_def handleSessionChanges_def startClone_def removeUnusedFiles_def)
  have r2: "reach cfg S2"
    by (rule reach_exists [OF r1, where xs = "[]" and i = "''s1''" and u = "''u''" and sl = h and ys = "[SG]" and n = 1])
       (simp_all add: Let_def S1_def S2_def ST1_def ST2_def e0_def e1_def GP_def F_def [symmetric] nodir
         exists_cb_def clone_def setRepoStatus_def store_reduce_def store_setRepoStatus_def handleChanges_def
         state_equals_def imap_equals_by_def session_equals_def handleSessionChanges_def removeUnusedFiles_def SG_def)
  have r3: "reach cfg S3"
    by (rule reach_git [OF r2, where xs = "[SG]" and i = "''s1''" and u = "''u''" and c = "GitClone ''u'' F"
          and ys = "[SG]" and code = 0 and files = "[[''README.md'']]" and n = 1])
       (simp_all add: Let_def S2_def S3_def ST2_def ST3_def e1_def e2_def GP_def D0_def D1_def checkout_def
         F_def toFolder_def sd_def butlast_append reportStatus_def setRepoStatus_def store_reduce_def store_setRepoStatus_def
         handleChanges_def state_equals_def imap_equals_by_def session_equals_def handleSessionChanges_def
         getFiles_def LF_def removeUnusedFiles_def SG_def)
  have r4: "reach cfg S4"
    by (rule reach_request [OF r3, where a = "\<lparr>act_session_id = Some ''s1'', act_body = RemoveSession None\<rparr>" and n = 1])
       (simp_all add: Let_def S3_def S4_def ST3_def ST4_def store_reduce_def store_removeSession_def
         handleChanges_def state_equals_def imap_equals_by_def removeUnusedFiles_def)
  have r5: "reach cfg S5"
    by (rule reach_request [OF r4, where a = "\<lparr>act_session_id = Some ''s1'', act_body = SetTimeout 2\<rparr>" and n = 1])
       (simp_all add: Let_def S4_def S5_def ST4_def ST5_def store_reduce_def store_setTimeout_def empty_session_def
         handleChanges_def state_equals_def imap_equals_by_def handleSessionChanges_def removeUnusedFiles_def SG_def)
  have r6: "reach cfg S6"
    by (rule reach_sweep [OF r5, where xs = "[SG, SG, LF, SG]" and keys = "[]" and ys = "[SG]" and n = 1])
       (simp_all add: S5_def S6_def D1_def F_def toFolder_def sd_def sweep_children_def sweep_cb_def nth_append)
  have "imap_get (sessions (store S6)) ''s1'' \<noteq> None \<and>
     butlast (toFolder cfg ''s1'' (hash cfg ''u'')) \<in> set (fs_dirs (disk S6)) \<and>
     Rimraf (session_data cfg @ [''s1'']) \<in> set (tasks S6)"
    by (simp add: S6_def ST5_def D1_def toFolder_def sd_def butlast_append)
  with r6 show ?thesis by blast
qed

end
