(* ===== verification/Slug_Invariant.thy ===== *)
theory Slug_Invariant
  imports System
begin

text \<open>
  The folder of a repository is named by the slug of its URL: \<^verbatim>\<open>startClone\<close>
  computes \<^verbatim>\<open>hash(url)\<close>, the \<^verbatim>\<open>fs.exists\<close> callback records it with
  \<^verbatim>\<open>cloning\<close> and launches git into \<^verbatim>\<open>toFolder(id, slug)\<close>, and \<^verbatim>\<open>getFiles\<close>
  lists the folder of the recorded slug (\<^verbatim>\<open>src/src/handle_changes.js\<close>). The
  predicates below say that every slug of the store and of a pending operation is the hash
  of its URL; they are preserved by every reducer, the listener, every callback and every
  step of the event loop.
\<close>

definition session_slug_ok :: "config \<Rightarrow> session \<Rightarrow> bool" where
  "session_slug_ok cfg se \<longleftrightarrow>
     list_all (\<lambda>(u, r). case repo_slug r of None \<Rightarrow> True | Some sl \<Rightarrow> sl = hash cfg u) (repos se)"

definition store_slug_ok :: "config \<Rightarrow> state \<Rightarrow> bool" where
  "store_slug_ok cfg st \<longleftrightarrow> list_all (\<lambda>(i, se). session_slug_ok cfg se) (sessions st)"

fun task_slug_ok :: "config \<Rightarrow> task \<Rightarrow> bool" where
  "task_slug_ok cfg (ExistsCheck i u sl) \<longleftrightarrow> sl = hash cfg u"
| "task_slug_ok cfg (GitProc i u c) \<longleftrightarrow> git_folder c = toFolder cfg i (hash cfg u)"
| "task_slug_ok cfg (ListFiles i u sl) \<longleftrightarrow> sl = hash cfg u"
| "task_slug_ok cfg _ \<longleftrightarrow> True"

fun effect_slug_ok :: "config \<Rightarrow> effect \<Rightarrow> bool" where
  "effect_slug_ok cfg (Spawn t) \<longleftrightarrow> task_slug_ok cfg t"
| "effect_slug_ok cfg (Dispatch a) \<longleftrightarrow>
     (case act_body a of
        SetRepoStatus v \<Rightarrow> (case upd_slug v of None \<Rightarrow> True | Some sl \<Rightarrow> sl = hash cfg (upd_url v))
      | _ \<Rightarrow> True)"

definition sys_slug_ok :: "config \<Rightarrow> sys \<Rightarrow> bool" where
  "sys_slug_ok cfg s \<longleftrightarrow> store_slug_ok cfg (store s) \<and> list_all (task_slug_ok cfg) (tasks s)"

lemma repo_transition_slug:
  "repo_transition r v = Some r' \<Longrightarrow> repo_slug r' = repo_slug r \<or> repo_slug r' = upd_slug v"
  by (auto split: prod.splits status.splits)

lemma session_reduce_slug:
  assumes "session_slug_ok cfg se" and "effect_slug_ok cfg (Dispatch \<lparr>act_session_id = x, act_body = b\<rparr>)"
  shows "session_slug_ok cfg (session_reduce se b)"
proof (cases b)
  case (StartClone u)
  with assms(1) show ?thesis
    by (auto simp: session_slug_ok_def store_startClone_def start_entry_def intro!: list_all_update split: option.splits)
next
  case (SetRepoStatus v)
  show ?thesis
  proof (cases "imap_get (repos se) (upd_url v)")
    case None
    with SetRepoStatus assms(1) show ?thesis by (simp add: store_setRepoStatus_def)
  next
    case (Some r)
    have old: "(case repo_slug r of None \<Rightarrow> True | Some sl \<Rightarrow> sl = hash cfg (upd_url v))"
      using list_all_get [OF assms(1) [unfolded session_slug_ok_def] Some] by simp
    have new: "(case upd_slug v of None \<Rightarrow> True | Some sl \<Rightarrow> sl = hash cfg (upd_url v))"
      using assms(2) SetRepoStatus by simp
    show ?thesis
    proof (cases "repo_transition r v")
      case None
      with Some SetRepoStatus assms(1) show ?thesis
        by (simp add: store_setRepoStatus_def del: repo_transition.simps)
    next
      case (Some r')
      with old new repo_transition_slug [OF Some] have "case repo_slug r' of None \<Rightarrow> True | Some sl \<Rightarrow> sl = hash cfg (upd_url v)"
        by auto
      with Some \<open>imap_get (repos se) (upd_url v) = Some r\<close> SetRepoStatus assms(1) show ?thesis
        by (simp add: store_setRepoStatus_def session_slug_ok_def list_all_update del: repo_transition.simps)
    qed
  qed
qed (use assms(1) in \<open>simp_all add: session_slug_ok_def store_setTimeout_def\<close>)

lemma store_reduce_slug:
  assumes "store_slug_ok cfg st" and "effect_slug_ok cfg (Dispatch a)"
  shows "store_slug_ok cfg (store_reduce st a)"
proof (cases "act_session_id a")
  case None
  with assms(1) show ?thesis by (simp add: store_reduce_def)
next
  case (Some i)
  let ?s = "case imap_get (sessions st) i of None \<Rightarrow> empty_session | Some s \<Rightarrow> s"
  have "session_slug_ok cfg ?s"
    using assms(1) list_all_get [of "\<lambda>i se. session_slug_ok cfg se" "sessions st" i]
    by (auto simp: store_slug_ok_def session_slug_ok_def empty_session_def split: option.splits)
  moreover have "effect_slug_ok cfg (Dispatch \<lparr>act_session_id = Some i, act_body = act_body a\<rparr>)"
    using assms(2) by (cases "act_body a") simp_all
  ultimately have "session_slug_ok cfg (session_reduce ?s (act_body a))" by (rule session_reduce_slug)
  then have "store_slug_ok cfg (st\<lparr>sessions := imap_set i (session_reduce ?s (act_body a)) (sessions st)\<rparr>)"
    using assms(1) by (simp add: store_slug_ok_def list_all_update)
  with Some show ?thesis
    by (auto simp: store_reduce_def Let_def store_removeSession_def store_slug_ok_def list_all_delete
        split: action_body.splits simp del: session_reduce.simps)
qed

lemma handleSessionChanges_slug:
  assumes "session_slug_ok cfg se"
  shows "list_all (effect_slug_ok cfg) (handleSessionChanges cfg se i)"
  unfolding handleSessionChanges_def
proof (rule list_all_concat_map)
  fix x assume x: "x \<in> set (repos se)"
  obtain u r where ur: "x = (u, r)" by (cases x)
  have "case repo_slug r of None \<Rightarrow> True | Some sl \<Rightarrow> sl = hash cfg u"
    using assms x ur by (simp add: session_slug_ok_def list_all_iff) blast
  then show "list_all (effect_slug_ok cfg) ((\<lambda>(u, r).
      if repo_status r = Start then startClone cfg i u
      else if repo_status r = CloneDone then getFiles i u (repo_slug r) else []) x)"
    using ur by (simp add: startClone_def getFiles_def setRepoStatus_def split: option.splits)
qed

lemma handleChanges_slug:
  assumes "store_slug_ok cfg st"
  shows "list_all (effect_slug_ok cfg) (handleChanges cfg p st)"
proof -
  have "list_all (effect_slug_ok cfg) (concat (map (\<lambda>(i, s).
      if (case imap_get (sessions p) i of None \<Rightarrow> False | Some q \<Rightarrow> session_equals s q)
      then [] else handleSessionChanges cfg s i) (sessions st)))"
  proof (rule list_all_concat_map)
    fix x assume x: "x \<in> set (sessions st)"
    obtain i se where ise: "x = (i, se)" by (cases x)
    have "session_slug_ok cfg se" using assms x ise by (simp add: store_slug_ok_def list_all_iff) blast
    then show "list_all (effect_slug_ok cfg) ((\<lambda>(i, s).
        if (case imap_get (sessions p) i of None \<Rightarrow> False | Some q \<Rightarrow> session_equals s q)
        then [] else handleSessionChanges cfg s i) x)"
      using ise handleSessionChanges_slug by simp
  qed
  then show ?thesis by (simp add: handleChanges_def removeUnusedFiles_def)
qed

lemma dispatch_run_effects_slug:
  "dispatch n cfg s a = Some s' \<Longrightarrow> sys_slug_ok cfg s \<Longrightarrow> effect_slug_ok cfg (Dispatch a) \<Longrightarrow> sys_slug_ok cfg s'"
  "run_effects n cfg s es = Some s' \<Longrightarrow> sys_slug_ok cfg s \<Longrightarrow> list_all (effect_slug_ok cfg) es \<Longrightarrow> sys_slug_ok cfg s'"
proof (induction n cfg s a and n cfg s es arbitrary: s' and s' rule: dispatch_run_effects.induct)
  case (2 n cfg s a)
  then obtain s1 where r: "run_effects n cfg (s\<lparr>store := store_reduce (store s) a\<rparr>)
      (handleChanges cfg (prev s) (store_reduce (store s) a)) = Some s1"
    and s': "s' = s1\<lparr>prev := store_reduce (store s) a\<rparr>"
    by (auto simp: Let_def)
  have st: "store_slug_ok cfg (store_reduce (store s) a)"
    using "2.prems"(2,3) store_reduce_slug by (simp add: sys_slug_ok_def)
  have "sys_slug_ok cfg s1"
    using "2.IH" [OF refl r] "2.prems"(2) st handleChanges_slug [OF st] by (simp add: sys_slug_ok_def)
  with s' show ?case by (simp add: sys_slug_ok_def)
next
  case (4 n cfg s t es)
  then show ?case by (simp add: sys_slug_ok_def)
next
  case (5 n cfg s a es)
  then show ?case by (auto split: option.splits)
qed auto

lemma callbacks_slug:
  "sl = hash cfg u \<Longrightarrow> list_all (effect_slug_ok cfg) (exists_cb cfg i u sl ex)"
  "list_all (effect_slug_ok cfg) (reportStatus i u code)"
  "list_all (effect_slug_ok cfg) (files_cb cfg i u res)"
  "list_all (effect_slug_ok cfg) (sweep_cb cfg keys res2)"
  by (auto simp: exists_cb_def fetch_def clone_def reportStatus_def files_cb_def sweep_cb_def
      setRepoStatus_def list_all_iff split: sum.splits)

lemma reach_slug: "reach cfg s \<Longrightarrow> sys_slug_ok cfg s"
proof (induction rule: reach.induct)
  case init
  show ?case by (simp add: sys_slug_ok_def store_slug_ok_def init_sys_def initial_state_def)
next
  case (step s s')
  from step.hyps(2) step.IH show ?case
  proof (cases rule: sys_step.cases)
    case (request a n)
    then show ?thesis using step.IH
      by (auto elim!: dispatch_run_effects_slug(1) split: action_body.splits)
  next
    case (exists_done xs i u sl ys n)
    then have "sl = hash cfg u" and "sys_slug_ok cfg (s\<lparr>tasks := xs @ ys\<rparr>)"
      using step.IH by (simp_all add: sys_slug_ok_def)
    with exists_done show ?thesis by (blast intro: dispatch_run_effects_slug(2) callbacks_slug)
  next
    case (git_exit xs i u c ys d' code files n)
    then have "sys_slug_ok cfg (s\<lparr>tasks := xs @ ys, disk := d'\<rparr>)"
      using step.IH by (simp add: sys_slug_ok_def)
    with git_exit show ?thesis by (blast intro: dispatch_run_effects_slug(2) callbacks_slug)
  next
    case (list_done xs i u sl ys res n)
    then have "sys_slug_ok cfg (s\<lparr>tasks := xs @ ys\<rparr>)"
      using step.IH by (simp add: sys_slug_ok_def)
    with list_done show ?thesis by (blast intro: dispatch_run_effects_slug(2) callbacks_slug)
  next
    case (sweep_done xs keys ys res n)
    then have "sys_slug_ok cfg (s\<lparr>tasks := xs @ ys\<rparr>)"
      using step.IH by (simp add: sys_slug_ok_def)
    with sweep_done show ?thesis by (blast intro: dispatch_run_effects_slug(2) callbacks_slug)
  next
    case (rimraf_done xs p ys d')
    then show ?thesis using step.IH by (simp add: sys_slug_ok_def)
  qed
qed

subsection \<open>Properties of the slugs\<close>

text \<open>
  C40. In every reachable state the slug the store records for a repository is the hash
  of its URL, and every pending git process and file listing of that repository works in
  the folder that slug names: the runner writes where the lister reads, as the spec's
  ownership-by-slug rule for the shared session data tree requires.
\<close>

theorem slug_ownership:
  assumes "reach cfg s" and "imap_get (sessions (store s)) i = Some se"
    and "imap_get (repos se) u = Some r" and "repo_slug r = Some sl"
  shows "sl = hash cfg u \<and> (\<forall>c. GitProc i u c \<in> set (tasks s) \<longrightarrow> git_folder c = toFolder cfg i sl) \<and>
         (\<forall>sl'. ListFiles i u sl' \<in> set (tasks s) \<longrightarrow> sl' = sl)"
proof -
  have ok: "sys_slug_ok cfg s" by (rule reach_slug [OF assms(1)])
  have "session_slug_ok cfg se"
    using list_all_get [of "\<lambda>i se. session_slug_ok cfg se", OF _ assms(2)] ok
    by (simp add: sys_slug_ok_def store_slug_ok_def)
  then have h: "sl = hash cfg u"
    using list_all_get [OF _ assms(3), of "\<lambda>u r. case repo_slug r of None \<Rightarrow> True | Some sl \<Rightarrow> sl = hash cfg u"] assms(4)
    by (simp add: session_slug_ok_def)
  have "list_all (task_slug_ok cfg) (tasks s)" using ok by (simp add: sys_slug_ok_def)
  with h show ?thesis by (auto simp: list_all_iff)
qed

theorem slug_ownership_witness:
  "reach example_cfg
     \<lparr>store = \<lparr>sessions = [(''s1'', \<lparr>repos = [(''u'', \<lparr>repo_status = Cloning, repo_slug = Some ''a1b2c3d'', repo_files = None\<rparr>)], timeout = None\<rparr>)]\<rparr>,
      prev = \<lparr>sessions = [(''s1'', \<lparr>repos = [(''u'', \<lparr>repo_status = Cloning, repo_slug = Some ''a1b2c3d'', repo_files = None\<rparr>)], timeout = None\<rparr>)]\<rparr>,
      tasks = [SweepGlob [''s1''], GitProc ''s1'' ''u'' (GitClone ''u'' [''data'', ''s1'', ''a1b2c3d'']), SweepGlob [''s1'']],
      disk = \<lparr>fs_files = [], fs_dirs = [[''data'']]\<rparr>\<rparr> \<and>
   ''a1b2c3d'' = hash example_cfg ''u'' \<and>
   git_folder (GitClone ''u'' [''data'', ''s1'', ''a1b2c3d'']) = toFolder example_cfg ''s1'' ''a1b2c3d''"
proof -
  have r1: "reach example_cfg
     \<lparr>store = \<lparr>sessions = [(''s1'', \<lparr>repos = [(''u'', \<lparr>repo_status = Start, repo_slug = None, repo_files = None\<rparr>)], timeout = None\<rparr>)]\<rparr>,
      prev = \<lparr>sessions = [(''s1'', \<lparr>repos = [(''u'', \<lparr>repo_status = Start, repo_slug = None, repo_files = None\<rparr>)], timeout = None\<rparr>)]\<rparr>,
      tasks = [ExistsCheck ''s1'' ''u'' ''a1b2c3d'', SweepGlob [''s1'']], disk = \<lparr>fs_files = [], fs_dirs = [[''data'']]\<rparr>\<rparr>"
    by (rule reach_request [OF reach.init, where a = "\<lparr>act_session_id = Some ''s1'', act_body = StartClone ''u''\<rparr>"
          and n = 1])
       (simp_all add: Let_def example_cfg_def hash_def init_sys_def store_reduce_def initial_state_def
         empty_session_def store_startClone_def start_entry_def handleChanges_def state_equals_def
         imap_equals_by_def handleSessionChanges_def startClone_def removeUnusedFiles_def)
  have r2: "reach example_cfg
     \<lparr>store = \<lparr>sessions = [(''s1'', \<lparr>repos = [(''u'', \<lparr>repo_status = Cloning, repo_slug = Some ''a1b2c3d'', repo_files = None\<rparr>)], timeout = None\<rparr>)]\<rparr>,
      prev = \<lparr>sessions = [(''s1'', \<lparr>repos = [(''u'', \<lparr>repo_status = Cloning, repo_slug = Some ''a1b2c3d'', repo_files = None\<rparr>)], timeout = None\<rparr>)]\<rparr>,
      tasks = [SweepGlob [''s1''], GitProc ''s1'' ''u'' (GitClone ''u'' [''data'', ''s1'', ''a1b2c3d'']), SweepGlob [''s1'']],
      disk = \<lparr>fs_files = [], fs_dirs = [[''data'']]\<rparr>\<rparr>"
    by (rule reach_exists [OF r1, where xs = "[]" and ys = "[SweepGlob [''s1'']]" and n = 1
          and i = "''s1''" and u = "''u''" and sl = "''a1b2c3d''"])
       (simp_all add: Let_def example_cfg_def exists_cb_def clone_def toFolder_def setRepoStatus_def
         store_reduce_def store_setRepoStatus_def handleChanges_def state_equals_def imap_equals_by_def
         session_equals_def handleSessionChanges_def getFiles_def removeUnusedFiles_def empty_session_def)
  have e: "imap_get (sessions (store \<lparr>store = \<lparr>sessions = [(''s1'', \<lparr>repos = [(''u'', \<lparr>repo_status = Cloning, repo_slug = Some ''a1b2c3d'', repo_files = None\<rparr>)], timeout = None\<rparr>)]\<rparr>,
      prev = \<lparr>sessions = [(''s1'', \<lparr>repos = [(''u'', \<lparr>repo_status = Cloning, repo_slug = Some ''a1b2c3d'', repo_files = None\<rparr>)], timeout = None\<rparr>)]\<rparr>,
      tasks = [SweepGlob [''s1''], GitProc ''s1'' ''u'' (GitClone ''u'' [''data'', ''s1'', ''a1b2c3d'']), SweepGlob [''s1'']],
      disk = \<lparr>fs_files = [], fs_dirs = [[''data'']]\<rparr>\<rparr>)) ''s1'' =
      Some \<lparr>repos = [(''u'', \<lparr>repo_status = Cloning, repo_slug = Some ''a1b2c3d'', repo_files = None\<rparr>)], timeout = None\<rparr>"
    by simp
  have u: "imap_get (repos \<lparr>repos = [(''u'', \<lparr>repo_status = Cloning, repo_slug = Some ''a1b2c3d'', repo_files = None\<rparr>)],
      timeout = None\<rparr>) ''u'' = Some \<lparr>repo_status = Cloning, repo_slug = Some ''a1b2c3d'', repo_files = None\<rparr>"
    by simp
  from r2 slug_ownership [OF r2 e u] show ?thesis by (simp add: hash_def example_cfg_def)
qed

end
