(* ===== verification/Server.thy ===== *)
theory Server
  imports System
begin

text \<open>
  Model of the HTTP layer \<^verbatim>\<open>src/lib/app.js\<close> around the running program of
  \<open>System\<close>. The state \<open>srv\<close> extends \<open>sys\<close> with what \<^verbatim>\<open>makeApp\<close> adds: the
  pending Node timers of \<^verbatim>\<open>setRemovalTimeout\<close> (handle and the session id their
  callback removes), the response listeners that \<^verbatim>\<open>POST /\<close> subscribes to the store
  (in subscription order, after the change reactor subscribed at start-up), the
  \<^verbatim>\<open>POST\<close> requests whose JSON body is still being parsed, and the responses sent.

  \<open>srv_dispatch\<close> is redux's \<^verbatim>\<open>dispatch\<close> with both kinds of subscribers: the
  reducer, then the change reactor (whose nested dispatches run to completion), then
  every response listener of the snapshot taken when the dispatch began, each reading
  the current state; a listener that unsubscribes stays in that round. A response
  listener that finds a \<^verbatim>\<open>done\<close> entry without files throws (\<open>None\<close>), as
  \<^verbatim>\<open>repo.get('files').map\<close> would.

  A request runs the session middleware (\<^verbatim>\<open>setRemovalTimeout\<close> of the cookie's id,
  then, for a cookie without one, a fresh id from \<^verbatim>\<open>shortid\<close> and its own
  \<^verbatim>\<open>setRemovalTimeout\<close>) and then its route; \<^verbatim>\<open>POST /\<close> continues after the body
  parser, in a later step. Requests served by the static middleware, registered before
  the session middleware, change nothing and are not steps. \<^verbatim>\<open>SESSION_DIR\<close> is the
  session data root of the configuration, and \<^verbatim>\<open>is-git-url\<close> a parameter.
  \<^verbatim>\<open>POST /\<close> first passes the rate limiter, whose memory store of hit counts is part
  of the state; its \<^verbatim>\<open>setInterval\<close> reset is a step at any time.
\<close>

datatype response = RData "string list" | RError string | RStatus nat | RIndex path

record waiter =
  w_req :: nat
  w_sid :: sid
  w_url :: url

datatype route = RoutePost url | RouteLimited | RouteFiles | RouteOther

type_synonym ip = string

text \<open>
  A request as the middlewares see it: the cookie's session id, the socket's remote
  address, the addresses of its \<^verbatim>\<open>X-Forwarded-For\<close> header (left to right), and
  which route it asks for.
\<close>

datatype request = ReqPost url | ReqFiles | ReqOther

record http_request =
  req_cookie :: "sid option"
  req_remote :: ip
  req_xff :: "ip list"
  req_kind :: request

record srv = sys +
  timers :: "(timer \<times> sid option) list"
  next_timer :: timer
  waiters :: "waiter list"
  posts :: "(nat \<times> sid option \<times> url) list"
  responses :: "(nat \<times> response) list"
  next_req :: nat
  hits :: "(ip, nat) imap"

definition srv_init :: "config \<Rightarrow> srv" where
  "srv_init cfg = \<lparr>store = initial_state, prev = initial_state, tasks = [],
                   disk = \<lparr>fs_files = [], fs_dirs = [session_data cfg]\<rparr>,
                   timers = [], next_timer = 0, waiters = [], posts = [], responses = [],
                   next_req = 0, hits = []\<rparr>"

definition respond :: "nat \<Rightarrow> response \<Rightarrow> srv \<Rightarrow> srv" where
  "respond r x s = s\<lparr>responses := responses s @ [(r, x)]\<rparr>"

definition unsubscribe :: "nat \<Rightarrow> srv \<Rightarrow> srv" where
  "unsubscribe r s = s\<lparr>waiters := filter (\<lambda>w. w_req w \<noteq> r) (waiters s)\<rparr>"

text \<open>The listener that \<^verbatim>\<open>POST /\<close> subscribes for its session and URL.\<close>

definition waiter_cb :: "waiter \<Rightarrow> srv \<Rightarrow> srv option" where
  "waiter_cb w s =
     (case imap_get (sessions (store s)) (w_sid w) of
        None \<Rightarrow> Some s
      | Some session \<Rightarrow>
          (case imap_get (repos session) (w_url w) of
             None \<Rightarrow> Some s
           | Some repo \<Rightarrow>
               if repo_status repo = Done then
                 (case repo_files repo of
                    None \<Rightarrow> None
                  | Some files \<Rightarrow>
                      Some (unsubscribe (w_req w)
                        (respond (w_req w) (RData (map (\<lambda>p. ''/files/'' @ p) files)) s)))
               else if repo_status repo = Failed then
                 Some (unsubscribe (w_req w) (respond (w_req w) (RError ''clone failed'') s))
               else Some s))"

fun notify :: "waiter list \<Rightarrow> srv \<Rightarrow> srv option" where
  "notify [] s = Some s"
| "notify (w # ws) s = (case waiter_cb w s of None \<Rightarrow> None | Some s' \<Rightarrow> notify ws s')"

fun srv_dispatch :: "nat \<Rightarrow> config \<Rightarrow> srv \<Rightarrow> action \<Rightarrow> srv option"
and srv_run_effects :: "nat \<Rightarrow> config \<Rightarrow> srv \<Rightarrow> effect list \<Rightarrow> srv option" where
  "srv_dispatch 0 cfg s a = None"
| "srv_dispatch (Suc n) cfg s a =
     (let st = store_reduce (store s) a
      in case srv_run_effects n cfg (s\<lparr>store := st\<rparr>) (handleChanges cfg (prev s) st) of
           None \<Rightarrow> None
         | Some s' \<Rightarrow> notify (waiters s) (s'\<lparr>prev := st\<rparr>))"
| "srv_run_effects n cfg s [] = Some s"
| "srv_run_effects n cfg s (Spawn t # es) = srv_run_effects n cfg (s\<lparr>tasks := tasks s @ [t]\<rparr>) es"
| "srv_run_effects n cfg s (Dispatch a # es) =
     (case srv_dispatch n cfg s a of None \<Rightarrow> None | Some s' \<Rightarrow> srv_run_effects n cfg s' es)"

definition clearTimeout :: "timer option \<Rightarrow> srv \<Rightarrow> srv" where
  "clearTimeout t s =
     (case t of None \<Rightarrow> s | Some h \<Rightarrow> s\<lparr>timers := filter (\<lambda>(h', _). h' \<noteq> h) (timers s)\<rparr>)"

definition setRemovalTimeout :: "nat \<Rightarrow> config \<Rightarrow> sid option \<Rightarrow> srv \<Rightarrow> srv option" where
  "setRemovalTimeout n cfg i s =
     (let session = (case i of None \<Rightarrow> None | Some j \<Rightarrow> imap_get (sessions (store s)) j);
          s = (case session of None \<Rightarrow> s | Some se \<Rightarrow> clearTimeout (timeout se) s);
          t = next_timer s;
          s = s\<lparr>timers := timers s @ [(t, i)], next_timer := Suc t\<rparr>
      in srv_dispatch n cfg s \<lparr>act_session_id = i, act_body = SetTimeout t\<rparr>)"

definition files_route :: "config \<Rightarrow> nat \<Rightarrow> sid option \<Rightarrow> srv \<Rightarrow> srv" where
  "files_route cfg r i s =
     (case i of None \<Rightarrow> respond r (RStatus 410) s
      | Some j \<Rightarrow> if imap_get (sessions (store s)) j = None then respond r (RStatus 410) s
                  else respond r (RIndex (session_data cfg @ [j])) s)"

fun route_handler :: "config \<Rightarrow> nat \<Rightarrow> sid option \<Rightarrow> route \<Rightarrow> srv \<Rightarrow> srv" where
  "route_handler cfg r i (RoutePost u) s = s\<lparr>posts := posts s @ [(r, i, u)]\<rparr>"
| "route_handler cfg r i RouteLimited s = respond r (RStatus 429) s"
| "route_handler cfg r i RouteFiles s = files_route cfg r i s"
| "route_handler cfg r i RouteOther s = s"

text \<open>
  \<^verbatim>\<open>req.ip\<close>: with \<^verbatim>\<open>app.enable('trust proxy')\<close> express trusts every hop and
  takes the left-most address of \<^verbatim>\<open>X-Forwarded-For\<close>, otherwise the socket's address.
\<close>

definition req_ip :: "config \<Rightarrow> http_request \<Rightarrow> ip" where
  "req_ip cfg q =
     (if trust_proxy cfg then (case req_xff q of [] \<Rightarrow> req_remote q | a # _ \<Rightarrow> a) else req_remote q)"

text \<open>
  The \<^verbatim>\<open>express-rate-limit\<close> middleware \<^verbatim>\<open>apiLimiter\<close> with its memory store:
  \<^verbatim>\<open>incr\<close> counts the request under its key \<^verbatim>\<open>req.ip\<close> (\<^verbatim>\<open>hits[key]++\<close>,
  or \<^verbatim>\<open>1\<close> for a new key), and the handler answers 429 when
  \<^verbatim>\<open>options.max && current > options.max\<close>; \<^verbatim>\<open>delayMs: 0\<close> disables the
  delay. The pair is the new store and whether \<^verbatim>\<open>next()\<close> is called.
\<close>

definition hit_count :: "(ip, nat) imap \<Rightarrow> ip \<Rightarrow> nat" where
  "hit_count h k = (case imap_get h k of None \<Rightarrow> 0 | Some c \<Rightarrow> c)"

definition rate_limit :: "config \<Rightarrow> ip \<Rightarrow> (ip, nat) imap \<Rightarrow> (ip, nat) imap \<times> bool" where
  "rate_limit cfg k h =
     (let h' = imap_set k (Suc (hit_count h k)) h;
          current = hit_count h' k
      in (h', \<not> (max_clones_per_ip cfg \<noteq> 0 \<and> max_clones_per_ip cfg < current)))"

text \<open>\<^verbatim>\<open>app.post('/', apiLimiter, jsonParser, ...)\<close> and \<^verbatim>\<open>app.use('/files', ...)\<close>.\<close>

fun route_request :: "config \<Rightarrow> ip \<Rightarrow> nat \<Rightarrow> sid option \<Rightarrow> request \<Rightarrow> srv \<Rightarrow> srv" where
  "route_request cfg k r i (ReqPost u) s =
     (case rate_limit cfg k (hits s) of
        (h, pass) \<Rightarrow> route_handler cfg r i (if pass then RoutePost u else RouteLimited) (s\<lparr>hits := h\<rparr>))"
| "route_request cfg k r i ReqFiles s = route_handler cfg r i RouteFiles s"
| "route_request cfg k r i ReqOther s = route_handler cfg r i RouteOther s"

definition handle_request ::
  "nat \<Rightarrow> config \<Rightarrow> http_request \<Rightarrow> sid \<Rightarrow> srv \<Rightarrow> srv option" where
  "handle_request n cfg q fresh s0 =
     (case setRemovalTimeout n cfg (req_cookie q) s0 of
        None \<Rightarrow> None
      | Some s1 \<Rightarrow>
          (case (if req_cookie q = None then setRemovalTimeout n cfg (Some fresh) s1 else Some s1) of
             None \<Rightarrow> None
           | Some s2 \<Rightarrow>
               Some (route_request cfg (req_ip cfg q) (next_req s2)
                       (if req_cookie q = None then Some fresh else req_cookie q) (req_kind q)
                       (s2\<lparr>next_req := Suc (next_req s2)\<rparr>))))"

text \<open>The handler of \<^verbatim>\<open>POST /\<close> once the body is parsed.\<close>

definition post_handler ::
  "nat \<Rightarrow> config \<Rightarrow> (string \<Rightarrow> bool) \<Rightarrow> nat \<Rightarrow> sid option \<Rightarrow> url \<Rightarrow> srv \<Rightarrow> srv option" where
  "post_handler n cfg isGitUrl r i u s =
     (case i of
        None \<Rightarrow> Some (respond r (RError ''Invalid or expired session'') s)
      | Some j \<Rightarrow>
          if \<not> isGitUrl u then Some (respond r (RError ''Invalid git URL'') s)
          else srv_dispatch n cfg (s\<lparr>waiters := waiters s @ [\<lparr>w_req = r, w_sid = j, w_url = u\<rparr>]\<rparr>)
                 \<lparr>act_session_id = Some j, act_body = StartClone u\<rparr>)"

inductive srv_step :: "config \<Rightarrow> (string \<Rightarrow> bool) \<Rightarrow> srv \<Rightarrow> srv \<Rightarrow> bool" for cfg isGitUrl where
  request:
    "handle_request n cfg q fresh s = Some s' \<Longrightarrow> srv_step cfg isGitUrl s s'"
| limiter_reset:
    "srv_step cfg isGitUrl s (s\<lparr>hits := []\<rparr>)"
| post:
    "posts s = xs @ (r, i, u) # ys \<Longrightarrow>
     post_handler n cfg isGitUrl r i u (s\<lparr>posts := xs @ ys\<rparr>) = Some s' \<Longrightarrow>
     srv_step cfg isGitUrl s s'"
| timer:
    "timers s = xs @ (t, i) # ys \<Longrightarrow>
     srv_dispatch n cfg (s\<lparr>timers := xs @ ys\<rparr>) \<lparr>act_session_id = i, act_body = RemoveSession None\<rparr> = Some s' \<Longrightarrow>
     srv_step cfg isGitUrl s s'"
| exists_done:
    "tasks s = xs @ ExistsCheck i u sl # ys \<Longrightarrow>
     srv_run_effects n cfg (s\<lparr>tasks := xs @ ys\<rparr>)
       (exists_cb cfg i u sl (toFolder cfg i sl \<in> set (fs_dirs (disk s)))) = Some s' \<Longrightarrow>
     srv_step cfg isGitUrl s s'"
| git_exit:
    "tasks s = xs @ GitProc i u c # ys \<Longrightarrow>
     d' = (if code = 0 then checkout (disk s) (git_folder c) files else disk s) \<Longrightarrow>
     srv_run_effects n cfg (s\<lparr>tasks := xs @ ys, disk := d'\<rparr>) (reportStatus i u code) = Some s' \<Longrightarrow>
     srv_step cfg isGitUrl s s'"
| list_done:
    "tasks s = xs @ ListFiles i u sl # ys \<Longrightarrow>
     res = Inr (glob_tree (disk s) (toFolder cfg i sl)) \<or> (\<exists>e. res = Inl e) \<Longrightarrow>
     srv_run_effects n cfg (s\<lparr>tasks := xs @ ys\<rparr>) (files_cb cfg i u res) = Some s' \<Longrightarrow>
     srv_step cfg isGitUrl s s'"
| sweep_done:
    "tasks s = xs @ SweepGlob keys # ys \<Longrightarrow>
     res = Inr (sweep_children (disk s) (session_data cfg)) \<or> (\<exists>e. res = Inl e) \<Longrightarrow>
     srv_run_effects n cfg (s\<lparr>tasks := xs @ ys\<rparr>) (sweep_cb cfg keys res) = Some s' \<Longrightarrow>
     srv_step cfg isGitUrl s s'"
| rimraf_done:
    "tasks s = xs @ Rimraf p # ys \<Longrightarrow>
     d' = rimraf (disk s) p \<or> d' = disk s \<Longrightarrow>
     srv_step cfg isGitUrl s (s\<lparr>tasks := xs @ ys, disk := d'\<rparr>)"

inductive srv_reach :: "config \<Rightarrow> (string \<Rightarrow> bool) \<Rightarrow> srv \<Rightarrow> bool" for cfg isGitUrl where
  init: "srv_reach cfg isGitUrl (srv_init cfg)"
| step: "srv_reach cfg isGitUrl s \<Longrightarrow> srv_step cfg isGitUrl s s' \<Longrightarrow> srv_reach cfg isGitUrl s'"

text \<open>
  Bookkeeping of the requests: every request id is pending as a \<^verbatim>\<open>POST\<close> body,
  subscribed as a response listener, or answered, at most one of them and at most once;
  a pending \<^verbatim>\<open>POST\<close> carries the session id the middleware gave it.
\<close>

definition req_ids :: "srv \<Rightarrow> nat list" where
  "req_ids s = map fst (posts s) @ map w_req (waiters s) @ map fst (responses s)"

definition req_inv :: "srv \<Rightarrow> bool" where
  "req_inv s \<longleftrightarrow> distinct (req_ids s) \<and> (\<forall>r \<in> set (req_ids s). r < next_req s)"

definition waiter_response :: "response \<Rightarrow> bool" where
  "waiter_response x \<longleftrightarrow> (\<exists>fs. x = RData fs) \<or> x = RError ''clone failed''"

definition srv_inv :: "srv \<Rightarrow> bool" where
  "srv_inv s \<longleftrightarrow> req_inv s \<and> (\<forall>(r, i, u) \<in> set (posts s). i \<noteq> None) \<and>
     (\<forall>(r, x) \<in> set (responses s). x \<noteq> RError ''Invalid or expired session'')"

subsection \<open>The HTTP layer refines the event loop\<close>

lemma waiter_cb_truncate: "waiter_cb w s = Some s' \<Longrightarrow> sys.truncate s' = sys.truncate s"
  by (auto simp: waiter_cb_def respond_def unsubscribe_def sys.truncate_def split: option.splits if_splits)

lemma notify_truncate: "notify ws s = Some s' \<Longrightarrow> sys.truncate s' = sys.truncate s"
proof (induction ws arbitrary: s)
  case (Cons w ws)
  then show ?case by (auto split: option.splits dest: waiter_cb_truncate)
qed simp

lemma srv_dispatch_project:
  "srv_dispatch n cfg s a = Some s' \<Longrightarrow> dispatch n cfg (sys.truncate s) a = Some (sys.truncate s')"
  "srv_run_effects n cfg s es = Some s' \<Longrightarrow> run_effects n cfg (sys.truncate s) es = Some (sys.truncate s')"
proof (induction n cfg s a and n cfg s es arbitrary: s' and s' rule: srv_dispatch_srv_run_effects.induct)
  case (2 n cfg s a)
  then obtain s1 where r: "srv_run_effects n cfg (s\<lparr>store := store_reduce (store s) a\<rparr>)
      (handleChanges cfg (prev s) (store_reduce (store s) a)) = Some s1"
    and nt: "notify (waiters s) (s1\<lparr>prev := store_reduce (store s) a\<rparr>) = Some s'"
    by (auto simp: Let_def split: option.splits)
  have "sys.truncate s' = (sys.truncate s1)\<lparr>prev := store_reduce (store s) a\<rparr>"
    using notify_truncate [OF nt] by (simp add: sys.truncate_def)
  with 2(1) [OF refl r] show ?case by (simp add: sys.truncate_def)
next
  case (4 n cfg s t es)
  then show ?case by (simp add: sys.truncate_def)
next
  case (5 n cfg s a es)
  then show ?case by (auto split: option.splits)
qed auto

lemma setRemovalTimeout_project:
  assumes "setRemovalTimeout n cfg i s = Some s'"
  shows "sys_step cfg (sys.truncate s) (sys.truncate s')"
proof -
  let ?s = "(case (case i of None \<Rightarrow> None | Some j \<Rightarrow> imap_get (sessions (store s)) j) of
              None \<Rightarrow> s | Some se \<Rightarrow> clearTimeout (timeout se) s)"
  let ?s1 = "?s\<lparr>timers := timers ?s @ [(next_timer ?s, i)], next_timer := Suc (next_timer ?s)\<rparr>"
  have d: "srv_dispatch n cfg ?s1 \<lparr>act_session_id = i, act_body = SetTimeout (next_timer ?s)\<rparr> = Some s'"
    using assms by (simp add: setRemovalTimeout_def Let_def)
  have t: "sys.truncate ?s1 = sys.truncate s"
    by (simp add: sys.truncate_def clearTimeout_def split: option.splits)
  show ?thesis
    using sys_step.request [OF _ srv_dispatch_project(1) [OF d]] t by simp
qed

lemma route_handler_truncate: "sys.truncate (route_handler cfg r i rt s) = sys.truncate s"
  by (cases rt) (simp_all add: sys.truncate_def respond_def files_route_def split: option.splits)

text \<open>The limiter only counts: every routed request is a route of \<open>route_handler\<close>.\<close>

lemma route_request_handler:
  "\<exists>rt h. route_request cfg k r i rq s = route_handler cfg r i rt (s\<lparr>hits := h\<rparr>)"
proof (cases rq)
  case (ReqPost u)
  obtain h pass where l: "rate_limit cfg k (hits s) = (h, pass)" by fastforce
  with ReqPost show ?thesis
    by (intro exI [of _ "if pass then RoutePost u else RouteLimited"] exI [of _ h]) simp
next
  case ReqFiles
  then show ?thesis by (intro exI [of _ RouteFiles] exI [of _ "hits s"]) simp
next
  case ReqOther
  then show ?thesis by (intro exI [of _ RouteOther] exI [of _ "hits s"]) simp
qed

lemma handle_request_split:
  assumes "handle_request n cfg q f s = Some s'"
  obtains s1 s2 rt h where "setRemovalTimeout n cfg (req_cookie q) s = Some s1"
    and "(if req_cookie q = None then setRemovalTimeout n cfg (Some f) s1 else Some s1) = Some s2"
    and "s' = route_handler cfg (next_req s2) (if req_cookie q = None then Some f else req_cookie q) rt
                (s2\<lparr>next_req := Suc (next_req s2), hits := h\<rparr>)"
proof -
  obtain s1 s2 where s1: "setRemovalTimeout n cfg (req_cookie q) s = Some s1"
    and s2: "(if req_cookie q = None then setRemovalTimeout n cfg (Some f) s1 else Some s1) = Some s2"
    and s': "s' = route_request cfg (req_ip cfg q) (next_req s2)
                    (if req_cookie q = None then Some f else req_cookie q) (req_kind q)
                    (s2\<lparr>next_req := Suc (next_req s2)\<rparr>)"
    using assms by (auto simp: handle_request_def split: option.splits)
  from route_request_handler obtain rt h where
    "s' = route_handler cfg (next_req s2) (if req_cookie q = None then Some f else req_cookie q) rt
            (s2\<lparr>next_req := Suc (next_req s2), hits := h\<rparr>)"
    using s' by fastforce
  with s1 s2 that show ?thesis by blast
qed

lemma handle_request_project:
  assumes "handle_request n cfg q f s = Some s'"
  shows "(sys_step cfg)\<^sup>*\<^sup>* (sys.truncate s) (sys.truncate s')"
proof -
  obtain s1 s2 rt h where s1: "setRemovalTimeout n cfg (req_cookie q) s = Some s1"
    and s2: "(if req_cookie q = None then setRemovalTimeout n cfg (Some f) s1 else Some s1) = Some s2"
    and s': "s' = route_handler cfg (next_req s2) (if req_cookie q = None then Some f else req_cookie q) rt
                (s2\<lparr>next_req := Suc (next_req s2), hits := h\<rparr>)"
    using assms by (rule handle_request_split)
  have "sys_step cfg (sys.truncate s) (sys.truncate s1)"
    by (rule setRemovalTimeout_project [OF s1])
  moreover have "(sys_step cfg)\<^sup>*\<^sup>* (sys.truncate s1) (sys.truncate s2)"
    using s2 setRemovalTimeout_project [of n cfg "Some f" s1 s2]
    by (auto split: if_splits)
  moreover have "sys.truncate s' = sys.truncate s2"
    using s' route_handler_truncate by (simp add: sys.truncate_def)
  ultimately show ?thesis by simp
qed

lemma post_handler_project:
  assumes "post_handler n cfg g r i u s = Some s'"
  shows "(sys_step cfg)\<^sup>*\<^sup>* (sys.truncate s) (sys.truncate s')"
proof (cases i)
  case None
  with assms show ?thesis by (auto simp: post_handler_def respond_def sys.truncate_def)
next
  case (Some j)
  show ?thesis
  proof (cases "g u")
    case True
    with assms Some have "srv_dispatch n cfg (s\<lparr>waiters := waiters s @ [\<lparr>w_req = r, w_sid = j, w_url = u\<rparr>]\<rparr>)
        \<lparr>act_session_id = Some j, act_body = StartClone u\<rparr> = Some s'"
      by (simp add: post_handler_def)
    from srv_dispatch_project(1) [OF this] have "sys_step cfg (sys.truncate s) (sys.truncate s')"
      by (intro sys_step.request [where a = "\<lparr>act_session_id = Some j, act_body = StartClone u\<rparr>" and n = n])
         (simp_all add: sys.truncate_def)
    then show ?thesis by simp
  next
    case False
    with assms Some show ?thesis by (auto simp: post_handler_def respond_def sys.truncate_def)
  qed
qed

lemma srv_step_project:
  assumes "srv_step cfg g s s'"
  shows "(sys_step cfg)\<^sup>*\<^sup>* (sys.truncate s) (sys.truncate s')"
  using assms
proof cases
  case (request n q fresh)
  then show ?thesis by (rule handle_request_project)
next
  case limiter_reset
  then show ?thesis by (simp add: sys.truncate_def)
next
  case (post xs r i u ys n)
  from post_handler_project [OF post(2)] show ?thesis by (simp add: sys.truncate_def)
next
  case (timer xs t i ys n)
  from srv_dispatch_project(1) [OF timer(2)] have "sys_step cfg (sys.truncate s) (sys.truncate s')"
    by (intro sys_step.request [where a = "\<lparr>act_session_id = i, act_body = RemoveSession None\<rparr>" and n = n])
       (simp_all add: sys.truncate_def)
  then show ?thesis by simp
next
  case (exists_done xs i u sl ys n)
  from srv_dispatch_project(2) [OF exists_done(2)] exists_done(1) show ?thesis
    by (intro r_into_rtranclp sys_step.exists_done [where xs = xs and ys = ys and n = n]) (simp_all add: sys.truncate_def)
next
  case (git_exit xs i u c ys d' code files n)
  have run: "run_effects n cfg ((sys.truncate s)\<lparr>tasks := xs @ ys, disk := d'\<rparr>) (reportStatus i u code) =
      Some (sys.truncate s')"
    using srv_dispatch_project(2) [OF git_exit(3)] by (simp add: sys.truncate_def)
  have t: "tasks (sys.truncate s) = tasks s" "disk (sys.truncate s) = disk s"
    by (simp_all add: sys.truncate_def)
  show ?thesis
    using sys_step.git_exit [OF _ _ run] git_exit(1,2) t by (metis r_into_rtranclp)
next
  case (list_done xs i u sl ys res n)
  from srv_dispatch_project(2) [OF list_done(3)] list_done(1-2) show ?thesis
    by (intro r_into_rtranclp sys_step.list_done [where xs = xs and ys = ys and n = n and res = res]) (simp_all add: sys.truncate_def)
next
  case (sweep_done xs keys ys res n)
  from srv_dispatch_project(2) [OF sweep_done(3)] sweep_done(1-2) show ?thesis
    by (intro r_into_rtranclp sys_step.sweep_done [where xs = xs and ys = ys and n = n and res = res]) (simp_all add: sys.truncate_def)
next
  case (rimraf_done xs p ys d')
  have "sys_step cfg (sys.truncate s) ((sys.truncate s)\<lparr>tasks := xs @ ys, disk := d'\<rparr>)"
    using rimraf_done(2,3) by (intro sys_step.rimraf_done) (simp_all add: sys.truncate_def)
  with rimraf_done(1) show ?thesis by (simp add: sys.truncate_def)
qed

lemma reach_rtranclp: "(sys_step cfg)\<^sup>*\<^sup>* s s' \<Longrightarrow> reach cfg s \<Longrightarrow> reach cfg s'"
  by (induction rule: rtranclp_induct) (auto intro: reach.step)

lemma srv_reach_project: "srv_reach cfg g s \<Longrightarrow> reach cfg (sys.truncate s)"
proof (induction rule: srv_reach.induct)
  case init
  have "sys.truncate (srv_init cfg) = init_sys cfg"
    by (simp add: srv_init_def init_sys_def sys.truncate_def)
  then show ?case by (simp add: reach.init)
next
  case (step s s')
  then show ?case using srv_step_project reach_rtranclp by blast
qed

lemma waiter_cb_frame:
  "waiter_cb w s = Some s' \<Longrightarrow> s' = s\<lparr>waiters := waiters s', responses := responses s'\<rparr>"
  by (auto simp: waiter_cb_def respond_def unsubscribe_def split: option.splits if_splits)

lemma notify_frame:
  "notify ws s = Some s' \<Longrightarrow> s' = s\<lparr>waiters := waiters s', responses := responses s'\<rparr>"
proof (induction ws arbitrary: s)
  case (Cons w ws)
  then obtain s1 where w: "waiter_cb w s = Some s1" and n: "notify ws s1 = Some s'"
    by (auto split: option.splits)
  have e1: "s1 = s\<lparr>waiters := waiters s1, responses := responses s1\<rparr>" by (rule waiter_cb_frame [OF w])
  have e2: "s' = s1\<lparr>waiters := waiters s', responses := responses s'\<rparr>" by (rule Cons.IH [OF n])
  show ?case by (rule trans [OF e2], subst e1, simp)
qed simp

lemma srv_run_effects_spawns:
  "filter is_dispatch es = [] \<Longrightarrow> \<exists>ts. srv_run_effects n cfg s es = Some (s\<lparr>tasks := tasks s @ ts\<rparr>)"
proof (induction es arbitrary: s)
  case Nil
  show ?case by (rule exI [of _ "[]"]) simp
next
  case (Cons e es)
  then obtain t where e: "e = Spawn t" by (cases e) auto
  with Cons.prems have "filter is_dispatch es = []" by simp
  then obtain ts where r: "srv_run_effects n cfg (s\<lparr>tasks := tasks s @ [t]\<rparr>) es =
      Some (s\<lparr>tasks := tasks s @ [t]\<rparr>\<lparr>tasks := tasks (s\<lparr>tasks := tasks s @ [t]\<rparr>) @ ts\<rparr>)"
    using Cons.IH by blast
  show ?case using r e by (intro exI [of _ "t # ts"]) simp
qed

lemma srv_dispatch_wf:
  assumes "srv_dispatch n cfg s a = Some s'" and "store_wf (store s)" and "action_ok (act_body a)"
  shows "\<exists>ts. notify (waiters s) (s\<lparr>store := store_reduce (store s) a, tasks := tasks s @ ts,
                                    prev := store_reduce (store s) a\<rparr>) = Some s'"
proof -
  obtain m where n: "n = Suc m" using assms(1) by (cases n) auto
  have "store_wf (store_reduce (store s) a)" using assms(2,3) by (rule store_reduce_wf)
  then have "filter is_dispatch (handleChanges cfg (prev s) (store_reduce (store s) a)) = []"
    by (rule handleChanges_filter_dispatch)
  then obtain ts where "srv_run_effects m cfg (s\<lparr>store := store_reduce (store s) a\<rparr>)
      (handleChanges cfg (prev s) (store_reduce (store s) a)) =
      Some (s\<lparr>store := store_reduce (store s) a\<rparr>\<lparr>tasks := tasks (s\<lparr>store := store_reduce (store s) a\<rparr>) @ ts\<rparr>)"
    using srv_run_effects_spawns by blast
  with assms(1) n show ?thesis by (auto simp: Let_def)
qed

lemma req_inv_answer:
  assumes "req_inv s" and "w \<in> set (waiters s)"
  shows "req_inv (unsubscribe (w_req w) (respond (w_req w) x s))"
proof -
  let ?r = "w_req w"
  have r: "?r \<in> set (map w_req (waiters s))" using assms(2) by simp
  have f: "map w_req (filter (\<lambda>w'. w_req w' \<noteq> ?r) (waiters s)) = filter (\<lambda>r'. r' \<noteq> ?r) (map w_req (waiters s))"
    by (simp add: filter_map comp_def)
  show ?thesis
    using assms(1) r
    by (auto simp: req_inv_def req_ids_def unsubscribe_def respond_def f distinct_filter)
qed

lemma waiter_cb_req_inv:
  assumes "waiter_cb w s = Some s'" and "w \<in> set (waiters s)" and "req_inv s"
  shows "req_inv s' \<and> (waiters s' = waiters s \<or> waiters s' = filter (\<lambda>w'. w_req w' \<noteq> w_req w) (waiters s))"
  using assms req_inv_answer [OF assms(3,2)]
  by (auto simp: waiter_cb_def unsubscribe_def respond_def split: option.splits if_splits)

lemma notify_req_inv:
  "notify ws s = Some s' \<Longrightarrow> req_inv s \<Longrightarrow> set ws \<subseteq> set (waiters s) \<Longrightarrow> distinct (map w_req ws) \<Longrightarrow> req_inv s'"
proof (induction ws arbitrary: s)
  case (Cons w ws)
  then obtain s1 where w: "waiter_cb w s = Some s1" and n: "notify ws s1 = Some s'"
    by (auto split: option.splits)
  from waiter_cb_req_inv [OF w] Cons.prems
  have i: "req_inv s1" and ws: "waiters s1 = waiters s \<or> waiters s1 = filter (\<lambda>w'. w_req w' \<noteq> w_req w) (waiters s)"
    by auto
  have "set ws \<subseteq> set (waiters s1)"
  proof
    fix x assume x: "x \<in> set ws"
    then have "x \<in> set (waiters s)" and "w_req x \<noteq> w_req w" using Cons.prems(3,4) by (auto simp: image_iff)
    then show "x \<in> set (waiters s1)" using ws by auto
  qed
  with Cons.IH [OF n i] Cons.prems(4) show ?case by simp
qed simp

lemma req_inv_waiters: "req_inv s \<Longrightarrow> distinct (map w_req (waiters s))"
  by (simp add: req_inv_def req_ids_def)

lemma srv_dispatch_req_inv:
  assumes "srv_dispatch n cfg s a = Some s'" and "store_wf (store s)" and "action_ok (act_body a)"
    and "req_inv s"
  shows "req_inv s'"
proof -
  obtain ts where n: "notify (waiters s) (s\<lparr>store := store_reduce (store s) a, tasks := tasks s @ ts,
      prev := store_reduce (store s) a\<rparr>) = Some s'"
    using srv_dispatch_wf [OF assms(1-3)] by blast
  have i: "req_inv (s\<lparr>store := store_reduce (store s) a, tasks := tasks s @ ts,
      prev := store_reduce (store s) a\<rparr>)"
    using assms(4) by (simp add: req_inv_def req_ids_def)
  show ?thesis
    by (rule notify_req_inv [OF n i _ req_inv_waiters [OF assms(4)]]) simp
qed

lemma waiter_cb_responses:
  "waiter_cb w s = Some s' \<Longrightarrow> \<exists>rs. responses s' = responses s @ rs \<and> (\<forall>(r, x) \<in> set rs. waiter_response x)"
  by (auto simp: waiter_cb_def unsubscribe_def respond_def waiter_response_def split: option.splits if_splits)

lemma notify_responses:
  "notify ws s = Some s' \<Longrightarrow> \<exists>rs. responses s' = responses s @ rs \<and> (\<forall>(r, x) \<in> set rs. waiter_response x)"
proof (induction ws arbitrary: s)
  case Nil
  then show ?case by (intro exI [of _ "[]"]) simp
next
  case (Cons w ws)
  then obtain s1 where w: "waiter_cb w s = Some s1" and n: "notify ws s1 = Some s'"
    by (auto split: option.splits)
  obtain rs1 where 1: "responses s1 = responses s @ rs1" "\<forall>(r, x) \<in> set rs1. waiter_response x"
    using waiter_cb_responses [OF w] by blast
  obtain rs2 where 2: "responses s' = responses s1 @ rs2" "\<forall>(r, x) \<in> set rs2. waiter_response x"
    using Cons.IH [OF n] by blast
  show ?case using 1 2 by (intro exI [of _ "rs1 @ rs2"]) auto
qed

lemma srv_dispatch_frame:
  assumes "srv_dispatch n cfg s a = Some s'" and "store_wf (store s)" and "action_ok (act_body a)"
  shows "store s' = store_reduce (store s) a \<and> posts s' = posts s \<and> timers s' = timers s \<and>
         next_timer s' = next_timer s \<and> next_req s' = next_req s \<and> disk s' = disk s \<and>
         (\<exists>rs. responses s' = responses s @ rs \<and> (\<forall>(r, x) \<in> set rs. waiter_response x))"
proof -
  obtain ts where n: "notify (waiters s) (s\<lparr>store := store_reduce (store s) a, tasks := tasks s @ ts,
      prev := store_reduce (store s) a\<rparr>) = Some s'"
    using srv_dispatch_wf [OF assms] by blast
  have e: "s' = (s\<lparr>store := store_reduce (store s) a, tasks := tasks s @ ts,
      prev := store_reduce (store s) a\<rparr>)\<lparr>waiters := waiters s', responses := responses s'\<rparr>"
    by (rule notify_frame [OF n])
  from notify_responses [OF n] show ?thesis by (subst (1 2 3 4 5 6) e) simp
qed

lemma srv_dispatch_hits:
  assumes "srv_dispatch n cfg s a = Some s'" and "store_wf (store s)" and "action_ok (act_body a)"
  shows "hits s' = hits s"
proof -
  obtain ts where n: "notify (waiters s) (s\<lparr>store := store_reduce (store s) a, tasks := tasks s @ ts,
      prev := store_reduce (store s) a\<rparr>) = Some s'"
    using srv_dispatch_wf [OF assms] by blast
  show ?thesis by (subst notify_frame [OF n]) simp
qed

lemma srv_inv_sys_fields [simp]:
  "srv_inv (s\<lparr>tasks := t\<rparr>) = srv_inv s"
  "srv_inv (s\<lparr>tasks := t, disk := d\<rparr>) = srv_inv s"
  "srv_inv (s\<lparr>timers := tm\<rparr>) = srv_inv s"
  by (simp_all add: srv_inv_def req_inv_def req_ids_def)

lemma srv_dispatch_inv:
  assumes "srv_dispatch n cfg s a = Some s'" and "store_wf (store s)" and "action_ok (act_body a)"
    and "srv_inv s"
  shows "srv_inv s' \<and> store_wf (store s') \<and> next_req s' = next_req s"
proof -
  from srv_dispatch_frame [OF assms(1-3)] obtain rs where
    f: "store s' = store_reduce (store s) a" "posts s' = posts s" "next_req s' = next_req s"
    and rs: "responses s' = responses s @ rs" "\<forall>(r, x) \<in> set rs. waiter_response x"
    by blast
  have "req_inv s'" using srv_dispatch_req_inv [OF assms(1-3)] assms(4) by (simp add: srv_inv_def)
  moreover have "store_wf (store s')" using f(1) store_reduce_wf [OF assms(2,3)] by simp
  ultimately show ?thesis
    using assms(4) f rs by (auto simp: srv_inv_def waiter_response_def)
qed

lemma srv_run_effects_inv:
  "srv_run_effects n cfg s es = Some s' \<Longrightarrow> store_wf (store s) \<Longrightarrow> effects_ok es \<Longrightarrow> srv_inv s \<Longrightarrow>
   srv_inv s' \<and> store_wf (store s') \<and> next_req s' = next_req s"
proof (induction es arbitrary: s)
  case (Cons e es)
  show ?case
  proof (cases e)
    case (Dispatch a)
    with Cons.prems obtain s1 where d: "srv_dispatch n cfg s a = Some s1"
      and r: "srv_run_effects n cfg s1 es = Some s'"
      by (auto split: option.splits)
    from Cons.prems Dispatch have ok: "action_ok (act_body a)" "effects_ok es" by simp_all
    from srv_dispatch_inv [OF d Cons.prems(2) ok(1) Cons.prems(4)] Cons.IH [OF r _ ok(2)]
    show ?thesis by simp
  next
    case (Spawn t)
    with Cons.prems Cons.IH [of "s\<lparr>tasks := tasks s @ [t]\<rparr>"] show ?thesis
      by simp
  qed
qed simp

lemma setRemovalTimeout_inv:
  assumes "setRemovalTimeout n cfg i s = Some s'" and "store_wf (store s)" and "srv_inv s"
  shows "srv_inv s' \<and> store_wf (store s') \<and> next_req s' = next_req s"
proof -
  let ?s = "(case (case i of None \<Rightarrow> None | Some j \<Rightarrow> imap_get (sessions (store s)) j) of
              None \<Rightarrow> s | Some se \<Rightarrow> clearTimeout (timeout se) s)"
  let ?s1 = "?s\<lparr>timers := timers ?s @ [(next_timer ?s, i)], next_timer := Suc (next_timer ?s)\<rparr>"
  have d: "srv_dispatch n cfg ?s1 \<lparr>act_session_id = i, act_body = SetTimeout (next_timer ?s)\<rparr> = Some s'"
    using assms(1) by (simp add: setRemovalTimeout_def Let_def)
  have "srv_inv ?s1 \<and> store_wf (store ?s1) \<and> next_req ?s1 = next_req s"
    using assms(2,3) by (simp add: srv_inv_def req_inv_def req_ids_def clearTimeout_def split: option.splits)
  with srv_dispatch_inv [OF d] show ?thesis by simp
qed

lemma route_handler_inv:
  assumes "srv_inv s" and "i \<noteq> None"
  shows "srv_inv (route_handler cfg (next_req s) i rt (s\<lparr>next_req := Suc (next_req s)\<rparr>))"
proof -
  have fresh: "next_req s \<notin> set (req_ids s)" and lt: "\<forall>r \<in> set (req_ids s). r < Suc (next_req s)"
    using assms(1) by (auto simp: srv_inv_def req_inv_def)
  have resp: "srv_inv (respond (next_req s) x (s\<lparr>next_req := Suc (next_req s)\<rparr>))"
    if "x \<noteq> RError ''Invalid or expired session''" for x
    using assms(1) fresh lt that by (auto simp: srv_inv_def req_inv_def req_ids_def respond_def)
  show ?thesis
  proof (cases rt)
    case (RoutePost u)
    with assms fresh lt show ?thesis by (auto simp: srv_inv_def req_inv_def req_ids_def)
  next
    case RouteOther
    with assms(1) lt show ?thesis by (auto simp: srv_inv_def req_inv_def req_ids_def)
  qed (auto simp: files_route_def resp split: option.splits)
qed

lemma handle_request_inv:
  assumes "handle_request n cfg q f s = Some s'" and "store_wf (store s)" and "srv_inv s"
  shows "srv_inv s'"
proof -
  obtain s1 s2 rt h where s1: "setRemovalTimeout n cfg (req_cookie q) s = Some s1"
    and s2: "(if req_cookie q = None then setRemovalTimeout n cfg (Some f) s1 else Some s1) = Some s2"
    and s': "s' = route_handler cfg (next_req s2) (if req_cookie q = None then Some f else req_cookie q) rt
                (s2\<lparr>next_req := Suc (next_req s2), hits := h\<rparr>)"
    using assms(1) by (rule handle_request_split)
  have 1: "srv_inv s1 \<and> store_wf (store s1)" using setRemovalTimeout_inv [OF s1 assms(2,3)] by simp
  have "srv_inv s2"
  proof (cases "req_cookie q = None")
    case True
    with s2 1 setRemovalTimeout_inv [of n cfg "Some f" s1 s2] show ?thesis by simp
  next
    case False
    with s2 1 show ?thesis by simp
  qed
  then have "srv_inv (s2\<lparr>hits := h\<rparr>)" by (simp add: srv_inv_def req_inv_def req_ids_def)
  from route_handler_inv [OF this, of "if req_cookie q = None then Some f else req_cookie q" cfg rt]
  have "srv_inv (route_handler cfg (next_req s2) (if req_cookie q = None then Some f else req_cookie q) rt
                   (s2\<lparr>hits := h, next_req := Suc (next_req s2)\<rparr>))" by simp
  moreover have "s2\<lparr>hits := h, next_req := Suc (next_req s2)\<rparr> = s2\<lparr>next_req := Suc (next_req s2), hits := h\<rparr>"
    by simp
  ultimately show ?thesis using s' by simp
qed

lemma post_handler_inv:
  assumes "post_handler n cfg g r i u (s\<lparr>posts := xs @ ys\<rparr>) = Some s'"
    and "posts s = xs @ (r, i, u) # ys" and "store_wf (store s)" and "srv_inv s"
  shows "srv_inv s'"
proof -
  from assms(2,4) obtain j where j: "i = Some j" by (auto simp: srv_inv_def)
  have d: "distinct (map fst xs @ r # map fst ys @ map w_req (waiters s) @ map fst (responses s))"
    and lt: "\<forall>q \<in> set (map fst xs @ r # map fst ys @ map w_req (waiters s) @ map fst (responses s)). q < next_req s"
    using assms(2,4) by (simp_all add: srv_inv_def req_inv_def req_ids_def)
  show ?thesis
  proof (cases "g u")
    case False
    with assms(1) j have "s' = respond r (RError ''Invalid git URL'') (s\<lparr>posts := xs @ ys\<rparr>)"
      by (simp add: post_handler_def)
    with d lt assms(2,4) show ?thesis by (auto simp: srv_inv_def req_inv_def req_ids_def respond_def)
  next
    case True
    let ?s = "s\<lparr>posts := xs @ ys, waiters := waiters s @ [\<lparr>w_req = r, w_sid = j, w_url = u\<rparr>]\<rparr>"
    from assms(1) j True have dsp: "srv_dispatch n cfg ?s \<lparr>act_session_id = Some j, act_body = StartClone u\<rparr> = Some s'"
      by (simp add: post_handler_def)
    have "srv_inv ?s"
      using d lt assms(2,4) by (auto simp: srv_inv_def req_inv_def req_ids_def)
    with srv_dispatch_inv [OF dsp] assms(3) show ?thesis by simp
  qed
qed

lemma srv_reach_wf: "srv_reach cfg g s \<Longrightarrow> store_wf (store s)"
  using reach_wf [OF srv_reach_project] by (simp add: sys.truncate_def)

lemma srv_step_inv:
  assumes "srv_step cfg g s s'" and "store_wf (store s)" and "srv_inv s"
  shows "srv_inv s'"
  using assms(1)
proof cases
  case (request n q fresh)
  then show ?thesis using handle_request_inv assms(2,3) by blast
next
  case limiter_reset
  then show ?thesis using assms(3) by (simp add: srv_inv_def req_inv_def req_ids_def)
next
  case (post xs r i u ys n)
  then show ?thesis using post_handler_inv assms(2,3) by blast
next
  case (timer xs t i ys n)
  from srv_dispatch_inv [OF timer(2)] assms(2,3) show ?thesis by simp
next
  case (exists_done xs i u sl ys n)
  from srv_run_effects_inv [OF exists_done(2)] assms(2,3) show ?thesis by (simp add: exists_cb_ok)
next
  case (git_exit xs i u c ys d' code files n)
  from srv_run_effects_inv [OF git_exit(3)] assms(2,3) show ?thesis by (simp add: reportStatus_ok)
next
  case (list_done xs i u sl ys res n)
  from srv_run_effects_inv [OF list_done(3)] assms(2,3) show ?thesis by (simp add: files_cb_ok)
next
  case (sweep_done xs keys ys res n)
  from srv_run_effects_inv [OF sweep_done(3)] assms(2,3) show ?thesis by (simp add: sweep_cb_ok)
next
  case (rimraf_done xs p ys d')
  with assms(3) show ?thesis by simp
qed

lemma srv_reach_inv: "srv_reach cfg g s \<Longrightarrow> srv_inv s"
proof (induction rule: srv_reach.induct)
  case init
  show ?case by (simp add: srv_init_def srv_inv_def req_inv_def req_ids_def)
next
  case (step s s')
  then show ?case using srv_step_inv srv_reach_wf by blast
qed

lemma waiter_cb_some:
  assumes wf: "store_wf (store s)"
  shows "\<exists>s'. waiter_cb w s = Some s'"
proof (cases "imap_get (sessions (store s)) (w_sid w)")
  case None
  then show ?thesis by (simp add: waiter_cb_def)
next
  case (Some se)
  show ?thesis
  proof (cases "imap_get (repos se) (w_url w)")
    case None
    with Some show ?thesis by (simp add: waiter_cb_def)
  next
    case (Some r)
    have "session_wf se" using wf \<open>imap_get (sessions (store s)) (w_sid w) = Some se\<close>
      by (auto simp: store_wf_def dest: imap_all_get)
    then have "repo_wf r" using Some by (auto simp: session_wf_def dest: imap_all_get)
    then have "repo_status r = Done \<Longrightarrow> repo_files r \<noteq> None" by (simp add: repo_wf_def)
    with Some \<open>imap_get (sessions (store s)) (w_sid w) = Some se\<close> show ?thesis
      by (cases "repo_files r") (auto simp: waiter_cb_def)
  qed
qed

lemma notify_some: "store_wf (store s) \<Longrightarrow> \<exists>s'. notify ws s = Some s'"
proof (induction ws arbitrary: s)
  case (Cons w ws)
  obtain s1 where w: "waiter_cb w s = Some s1" using waiter_cb_some [OF Cons.prems] by blast
  have e: "s1 = s\<lparr>waiters := waiters s1, responses := responses s1\<rparr>" by (rule waiter_cb_frame [OF w])
  have "store s1 = store s" by (subst e) simp
  with Cons.IH [of s1] Cons.prems w show ?case by simp
qed simp

lemma srv_dispatch_some:
  assumes "store_wf (store s)" and "action_ok (act_body a)"
  shows "\<exists>s'. srv_dispatch (Suc n) cfg s a = Some s'"
proof -
  have wf: "store_wf (store_reduce (store s) a)" using assms by (rule store_reduce_wf)
  then have "filter is_dispatch (handleChanges cfg (prev s) (store_reduce (store s) a)) = []"
    by (rule handleChanges_filter_dispatch)
  then obtain ts where r: "srv_run_effects n cfg (s\<lparr>store := store_reduce (store s) a\<rparr>)
      (handleChanges cfg (prev s) (store_reduce (store s) a)) =
      Some (s\<lparr>store := store_reduce (store s) a\<rparr>\<lparr>tasks := tasks (s\<lparr>store := store_reduce (store s) a\<rparr>) @ ts\<rparr>)"
    using srv_run_effects_spawns by blast
  obtain s' where "notify (waiters s) (s\<lparr>store := store_reduce (store s) a, tasks := tasks s @ ts,
      prev := store_reduce (store s) a\<rparr>) = Some s'"
    using notify_some wf by fastforce
  with r show ?thesis by (auto simp: Let_def)
qed

subsection \<open>Properties of the HTTP layer\<close>

text \<open>
  C30. Refinement: every state the server reaches, with its timers, response listeners
  and pending bodies forgotten, is a state the event loop of \<open>System\<close> reaches. The
  middleware's two dispatches, the \<^verbatim>\<open>startClone\<close> of \<^verbatim>\<open>POST /\<close> and the timer's
  \<^verbatim>\<open>removeSession\<close> are its requests; the response listeners change no state the
  program reads.
\<close>

theorem srv_refines_sys: "srv_reach cfg g s \<Longrightarrow> reach cfg (sys.truncate s)"
  by (rule srv_reach_project)

theorem srv_refines_sys_witness:
  "srv_reach example_cfg (\<lambda>_. True) (srv_init example_cfg) \<and>
   reach example_cfg (sys.truncate (srv_init example_cfg))"
  using srv_reach.init srv_refines_sys [OF srv_reach.init] by blast

text \<open>
  C31. Every request is answered at most once: no two responses of a reachable state
  carry the same request. A response listener answers and unsubscribes in the same call,
  and with no nested dispatch on a well-formed store it is not called again in the round
  that answered.
\<close>

theorem srv_one_response: "srv_reach cfg g s \<Longrightarrow> distinct (map fst (responses s))"
proof -
  assume "srv_reach cfg g s"
  then have "req_inv s" using srv_reach_inv by (simp add: srv_inv_def)
  then show ?thesis by (simp add: req_inv_def req_ids_def)
qed

theorem srv_one_response_witness:
  "srv_reach example_cfg (\<lambda>_. True) (srv_init example_cfg) \<and>
   distinct (map fst (responses (srv_init example_cfg)))"
  using srv_reach.init srv_one_response [OF srv_reach.init] by blast

text \<open>
  C32. The guard \<^verbatim>\<open>req.session.id == null\<close> of \<^verbatim>\<open>POST /\<close> never fires: the
  session middleware gives every request an id before its route runs, so the response
  \<^verbatim>\<open>Invalid or expired session\<close> is never sent.
\<close>

theorem srv_no_invalid_session:
  "srv_reach cfg g s \<Longrightarrow> (r, RError ''Invalid or expired session'') \<notin> set (responses s)"
  using srv_reach_inv by (fastforce simp: srv_inv_def)

theorem srv_no_invalid_session_witness:
  "srv_reach example_cfg (\<lambda>_. True) (srv_init example_cfg) \<and>
   (0, RError ''Invalid or expired session'') \<notin> set (responses (srv_init example_cfg))"
  using srv_reach.init srv_no_invalid_session [OF srv_reach.init] by blast

text \<open>
  C33. On a well-formed store a dispatch returns with one level of fuel and no
  subscriber throws: the change reactor makes no nested dispatch and every response
  listener that finds a \<^verbatim>\<open>done\<close> entry finds its files
  (\<^verbatim>\<open>repo.get('files').map\<close> does not fail).
\<close>

theorem srv_dispatch_never_throws:
  "store_wf (store s) \<Longrightarrow> action_ok (act_body a) \<Longrightarrow> \<exists>s'. srv_dispatch (Suc n) cfg s a = Some s'"
  by (rule srv_dispatch_some)

theorem srv_dispatch_never_throws_witness:
  "store_wf (store (srv_init example_cfg)) \<and> action_ok (StartClone ''u'') \<and>
   (\<exists>s'. srv_dispatch (Suc 0) example_cfg (srv_init example_cfg)
           \<lparr>act_session_id = Some ''s1'', act_body = StartClone ''u''\<rparr> = Some s')"
proof -
  have h: "store_wf (store (srv_init example_cfg))"
    by (simp add: srv_init_def store_wf_def initial_state_def)
  have o: "action_ok (act_body \<lparr>act_session_id = Some ''s1'', act_body = StartClone ''u''\<rparr>)" by simp
  from h srv_dispatch_never_throws [OF h o] show ?thesis by simp
qed

end
