(* ===== verification/Server_Timers.thy ===== *)
theory Server_Timers
  imports Server
begin

text \<open>
  The removal timers of \<^verbatim>\<open>setRemovalTimeout\<close> (\<^verbatim>\<open>src/lib/app.js\<close>) across the
  running server: how each action changes a session's recorded \<^verbatim>\<open>timeout\<close>
  (\<open>sess_timeout_reduce\<close>), the invariant tying pending Node timers to the handles
  the sessions record, its preservation by every step, the progress of requests, and the
  interleaving in which a session outlives its timer.
\<close>

text \<open>
  The removal timers: every pending timer handle is distinct and below the next one Node
  hands out, and a session's pending timer is exactly the handle its state records.
  \<open>sess_timeout\<close> reads \<^verbatim>\<open>state.get('sessions').get(id).get('timeout')\<close>.
\<close>

definition sess_timeout :: "state \<Rightarrow> sid \<Rightarrow> timer option option" where
  "sess_timeout st j = map_option timeout (imap_get (sessions st) j)"

fun keeps_timeout :: "action_body \<Rightarrow> bool" where
  "keeps_timeout (StartClone _) = True"
| "keeps_timeout (SetRepoStatus _) = True"
| "keeps_timeout _ = False"

definition keeps_effects :: "effect list \<Rightarrow> bool" where
  "keeps_effects es \<longleftrightarrow> (\<forall>a. Dispatch a \<in> set es \<longrightarrow> keeps_timeout (act_body a))"

definition timers_inv :: "srv \<Rightarrow> bool" where
  "timers_inv s \<longleftrightarrow> distinct (map fst (timers s)) \<and> (\<forall>(t, i) \<in> set (timers s). t < next_timer s) \<and>
     (\<forall>t j. (t, Some j) \<in> set (timers s) \<longleftrightarrow> sess_timeout (store s) j = Some (Some t))"

definition srv_invs :: "srv \<Rightarrow> bool" where
  "srv_invs s \<longleftrightarrow> srv_inv s \<and> timers_inv s \<and> store_wf (store s)"

lemma timeout_session_reduce:
  "timeout (session_reduce se b) = (case b of SetTimeout t \<Rightarrow> Some t | _ \<Rightarrow> timeout se)"
  by (cases b) (simp_all add: store_startClone_def store_setRepoStatus_def store_setTimeout_def
      split: option.splits)

lemma sess_timeout_reduce:
  "sess_timeout (store_reduce st a) j =
   (case act_session_id a of
      None \<Rightarrow> sess_timeout st j
    | Some i \<Rightarrow>
        (case act_body a of
           RemoveSession v \<Rightarrow>
             if j = (case v of None \<Rightarrow> i | Some k \<Rightarrow> k) then None
             else if j = i then Some (case sess_timeout st i of None \<Rightarrow> None | Some x \<Rightarrow> x)
             else sess_timeout st j
         | SetTimeout t \<Rightarrow> if j = i then Some (Some t) else sess_timeout st j
         | _ \<Rightarrow> if j = i then Some (case sess_timeout st i of None \<Rightarrow> None | Some x \<Rightarrow> x)
                else sess_timeout st j))"
  by (cases "act_session_id a"; cases "act_body a")
     (auto simp: store_reduce_def sess_timeout_def store_removeSession_def imap_simps
        timeout_session_reduce empty_session_def Let_def split: option.splits simp del: session_reduce.simps)

lemma sess_timeout_keep:
  "keeps_timeout (act_body a) \<Longrightarrow>
   sess_timeout (store_reduce st a) j = Some (Some t) \<longleftrightarrow> sess_timeout st j = Some (Some t)"
  by (cases "act_body a") (auto simp: sess_timeout_reduce split: option.splits)

lemma keeps_effects_simps [simp]:
  "keeps_effects []"
  "keeps_effects (Spawn t # es) \<longleftrightarrow> keeps_effects es"
  "keeps_effects (Dispatch a # es) \<longleftrightarrow> keeps_timeout (act_body a) \<and> keeps_effects es"
  by (auto simp: keeps_effects_def)

lemma callbacks_keep:
  "keeps_effects (exists_cb cfg i u sl ex)" "keeps_effects (reportStatus i u code)"
  "keeps_effects (files_cb cfg i u res)" "keeps_effects (sweep_cb cfg keys res2)"
  by (auto simp: keeps_effects_def exists_cb_def reportStatus_def files_cb_def sweep_cb_def
      setRepoStatus_def split: sum.splits)

lemma timers_inv_keep:
  assumes "srv_dispatch n cfg s a = Some s'" and "store_wf (store s)" and "action_ok (act_body a)"
    and "keeps_timeout (act_body a)" and "timers_inv s"
  shows "timers_inv s'"
  using srv_dispatch_frame [OF assms(1-3)] assms(4,5) by (simp add: timers_inv_def sess_timeout_keep)

lemma srv_run_effects_tinv:
  "srv_run_effects n cfg s es = Some s' \<Longrightarrow> store_wf (store s) \<Longrightarrow> effects_ok es \<Longrightarrow>
   keeps_effects es \<Longrightarrow> timers_inv s \<Longrightarrow> timers_inv s'"
proof (induction es arbitrary: s)
  case (Cons e es)
  show ?case
  proof (cases e)
    case (Dispatch a)
    with Cons.prems obtain s1 where d: "srv_dispatch n cfg s a = Some s1"
      and r: "srv_run_effects n cfg s1 es = Some s'"
      by (auto split: option.splits)
    from Cons.prems Dispatch have ok: "action_ok (act_body a)" "effects_ok es"
      "keeps_timeout (act_body a)" "keeps_effects es" by simp_all
    have "store_wf (store s1)" using srv_dispatch_inv [OF d Cons.prems(2) ok(1)]
      srv_dispatch_frame [OF d Cons.prems(2) ok(1)] store_reduce_wf [OF Cons.prems(2) ok(1)] by simp
    with timers_inv_keep [OF d Cons.prems(2) ok(1,3) Cons.prems(5)] Cons.IH [OF r] ok show ?thesis
      by simp
  next
    case (Spawn t)
    with Cons.prems Cons.IH [of "s\<lparr>tasks := tasks s @ [t]\<rparr>"] show ?thesis
      by (simp add: timers_inv_def)
  qed
qed simp

lemma timers_clear_keeps:
  assumes "timers_inv s" and "imap_get (sessions (store s)) j = Some se" and "timeout se = Some h"
    and "(t', Some k) \<in> set (timers s)"
  shows "t' = h \<longleftrightarrow> k = j"
proof -
  have hj: "(h, Some j) \<in> set (timers s)"
    using assms(1-3) by (simp add: timers_inv_def sess_timeout_def)
  have kt: "sess_timeout (store s) k = Some (Some t')"
    using assms(1,4) by (simp add: timers_inv_def)
  show ?thesis
  proof
    assume "t' = h"
    with hj assms(1,4) show "k = j" by (auto simp: timers_inv_def dest: eq_key_imp_eq_value)
  next
    assume "k = j"
    with kt assms(2,3) show "t' = h" by (simp add: sess_timeout_def)
  qed
qed

lemma setRemovalTimeout_tinv:
  assumes "setRemovalTimeout n cfg i s = Some s'" and "store_wf (store s)" and "timers_inv s"
  shows "timers_inv s'"
proof -
  define sc where "sc = (case (case i of None \<Rightarrow> None | Some j \<Rightarrow> imap_get (sessions (store s)) j) of
                           None \<Rightarrow> s | Some se \<Rightarrow> clearTimeout (timeout se) s)"
  define t where "t = next_timer sc"
  define a where "a = \<lparr>act_session_id = i, act_body = SetTimeout t\<rparr>"
  have sc: "store sc = store s" "next_timer sc = next_timer s" "set (timers sc) \<subseteq> set (timers s)"
    "distinct (map fst (timers sc))"
    using assms(3) by (auto simp: sc_def clearTimeout_def timers_inv_def distinct_map_filter split: option.splits)
  have d: "srv_dispatch n cfg (sc\<lparr>timers := timers sc @ [(t, i)], next_timer := Suc t\<rparr>) a = Some s'"
    using assms(1) by (simp add: setRemovalTimeout_def Let_def sc_def t_def a_def)
  from srv_dispatch_frame [OF d] assms(2) sc(1)
  have f: "store s' = store_reduce (store s) a" "timers s' = timers sc @ [(t, i)]" "next_timer s' = Suc t"
    by (simp_all add: a_def)
  have lt: "\<forall>(t', k) \<in> set (timers sc). t' < t"
    using assms(3) sc(2,3) by (auto simp: timers_inv_def t_def)
  have fresh: "t \<notin> fst ` set (timers sc)" using lt by force
  have iff: "(t', Some k) \<in> set (timers sc) \<or> (t', Some k) = (t, i) \<longleftrightarrow>
             sess_timeout (store_reduce (store s) a) k = Some (Some t')" for t' k
  proof (cases i)
    case None
    then have "sc = s" by (simp add: sc_def)
    with None assms(3) show ?thesis by (simp add: timers_inv_def sess_timeout_reduce a_def)
  next
    case (Some j)
    have A: "(t'', Some j) \<notin> set (timers sc)" for t''
    proof
      assume m: "(t'', Some j) \<in> set (timers sc)"
      then have "sess_timeout (store s) j = Some (Some t'')"
        using sc(3) assms(3) by (auto simp: timers_inv_def)
      then obtain se where "imap_get (sessions (store s)) j = Some se" "timeout se = Some t''"
        by (auto simp: sess_timeout_def)
      with m Some show False by (simp add: sc_def clearTimeout_def)
    qed
    have B: "(t', Some k) \<in> set (timers sc) \<longleftrightarrow> (t', Some k) \<in> set (timers s)" if "k \<noteq> j"
    proof
      assume "(t', Some k) \<in> set (timers sc)" with sc(3) show "(t', Some k) \<in> set (timers s)" by blast
    next
      assume m: "(t', Some k) \<in> set (timers s)"
      show "(t', Some k) \<in> set (timers sc)"
      proof (cases "imap_get (sessions (store s)) j")
        case None
        with m Some show ?thesis by (simp add: sc_def)
      next
        case (Some se)
        show ?thesis
        proof (cases "timeout se")
          case None
          with m Some \<open>i = Some j\<close> show ?thesis by (simp add: sc_def clearTimeout_def)
        next
          case (Some h)
          with timers_clear_keeps [OF assms(3) \<open>imap_get (sessions (store s)) j = Some se\<close> Some m] that
          have "t' \<noteq> h" by simp
          with m Some \<open>imap_get (sessions (store s)) j = Some se\<close> \<open>i = Some j\<close> show ?thesis
            by (simp add: sc_def clearTimeout_def)
        qed
      qed
    qed
    show ?thesis
    proof (cases "k = j")
      case True
      with A Some show ?thesis by (auto simp: sess_timeout_reduce a_def)
    next
      case False
      with B [OF False] Some assms(3) show ?thesis by (simp add: sess_timeout_reduce a_def timers_inv_def)
    qed
  qed
  show ?thesis
    using f sc(4) fresh lt iff by (auto simp: timers_inv_def)
qed

lemma timer_fire_tinv:
  assumes "timers s = xs @ (t, i) # ys"
    and "srv_dispatch n cfg (s\<lparr>timers := xs @ ys\<rparr>) \<lparr>act_session_id = i, act_body = RemoveSession None\<rparr> = Some s'"
    and "store_wf (store s)" and "timers_inv s"
  shows "timers_inv s'"
proof -
  from srv_dispatch_frame [OF assms(2)] assms(3)
  have f: "store s' = store_reduce (store s) \<lparr>act_session_id = i, act_body = RemoveSession None\<rparr>"
    "timers s' = xs @ ys" "next_timer s' = next_timer s" by simp_all
  have dist: "distinct (map fst (xs @ (t, i) # ys))" and lt: "\<forall>(t', k) \<in> set (xs @ (t, i) # ys). t' < next_timer s"
    and iff0: "\<forall>t' j. (t', Some j) \<in> set (xs @ (t, i) # ys) \<longleftrightarrow> sess_timeout (store s) j = Some (Some t')"
    using assms(1,4) by (simp_all add: timers_inv_def)
  have nt: "t \<notin> fst ` set (xs @ ys)" using dist by auto
  have iff: "(t', Some k) \<in> set (xs @ ys) \<longleftrightarrow>
             sess_timeout (store_reduce (store s) \<lparr>act_session_id = i, act_body = RemoveSession None\<rparr>) k = Some (Some t')"
    for t' k
  proof (cases i)
    case None
    with iff0 show ?thesis by (auto simp: sess_timeout_reduce)
  next
    case (Some j)
    show ?thesis
    proof (cases "k = j")
      case True
      have "(t', Some j) \<notin> set (xs @ ys)"
      proof
        assume m: "(t', Some j) \<in> set (xs @ ys)"
        then have "sess_timeout (store s) j = Some (Some t')" using iff0 by auto
        moreover have "sess_timeout (store s) j = Some (Some t)" using iff0 Some by auto
        ultimately have "t' = t" by simp
        with m nt show False by force
      qed
      with True Some show ?thesis by (simp add: sess_timeout_reduce)
    next
      case False
      with iff0 Some show ?thesis by (auto simp: sess_timeout_reduce)
    qed
  qed
  show ?thesis using f dist lt iff by (auto simp: timers_inv_def)
qed

lemma timers_inv_route [simp]:
  "timers_inv (route_handler cfg r i rt (s\<lparr>next_req := q, hits := h\<rparr>)) = timers_inv s"
  by (cases rt) (simp_all add: timers_inv_def files_route_def respond_def split: option.splits)

lemma setRemovalTimeout_invs:
  "setRemovalTimeout n cfg i s = Some s' \<Longrightarrow> srv_invs s \<Longrightarrow> srv_invs s' \<and> next_req s' = next_req s"
  using setRemovalTimeout_inv setRemovalTimeout_tinv by (simp add: srv_invs_def)

lemma handle_request_tinv:
  assumes "handle_request n cfg q f s = Some s'" and "srv_invs s"
  shows "timers_inv s'"
proof -
  obtain s1 s2 rt h where s1: "setRemovalTimeout n cfg (req_cookie q) s = Some s1"
    and s2: "(if req_cookie q = None then setRemovalTimeout n cfg (Some f) s1 else Some s1) = Some s2"
    and s': "s' = route_handler cfg (next_req s2) (if req_cookie q = None then Some f else req_cookie q) rt
                (s2\<lparr>next_req := Suc (next_req s2), hits := h\<rparr>)"
    using assms(1) by (rule handle_request_split)
  have 1: "srv_invs s1" using setRemovalTimeout_invs [OF s1 assms(2)] by simp
  have "srv_invs s2"
    using s2 1 setRemovalTimeout_invs [of n cfg "Some f" s1 s2] by (auto split: if_splits)
  with s' show ?thesis by (simp add: srv_invs_def)
qed

lemma post_handler_tinv:
  assumes "post_handler n cfg g r i u (s\<lparr>posts := xs @ ys\<rparr>) = Some s'" and "srv_invs s"
  shows "timers_inv s'"
proof (cases "\<exists>j. i = Some j \<and> g u")
  case True
  then obtain j where j: "i = Some j" and gu: "g u" by blast
  let ?s = "s\<lparr>posts := xs @ ys, waiters := waiters s @ [\<lparr>w_req = r, w_sid = j, w_url = u\<rparr>]\<rparr>"
  from assms(1) j gu have d: "srv_dispatch n cfg ?s \<lparr>act_session_id = Some j, act_body = StartClone u\<rparr> = Some s'"
    by (simp add: post_handler_def)
  from assms(2) have "timers_inv ?s" "store_wf (store ?s)" by (simp_all add: srv_invs_def timers_inv_def)
  then show ?thesis using timers_inv_keep [OF d] by simp
next
  case False
  with assms show ?thesis
    by (cases i) (auto simp: post_handler_def respond_def srv_invs_def timers_inv_def)
qed

lemma srv_step_tinv:
  assumes "srv_step cfg g s s'" and "srv_invs s"
  shows "timers_inv s'"
  using assms(1)
proof cases
  case (request n q fresh)
  then show ?thesis using handle_request_tinv assms(2) by blast
next
  case limiter_reset
  then show ?thesis using assms(2) by (simp add: srv_invs_def timers_inv_def)
next
  case (post xs r i u ys n)
  then show ?thesis using post_handler_tinv assms(2) by blast
next
  case (timer xs t i ys n)
  then show ?thesis using timer_fire_tinv assms(2) by (simp add: srv_invs_def)
next
  case (exists_done xs i u sl ys n)
  from srv_run_effects_tinv [OF exists_done(2)] assms(2) show ?thesis
    by (simp add: srv_invs_def exists_cb_ok callbacks_keep timers_inv_def)
next
  case (git_exit xs i u c ys d' code files n)
  from srv_run_effects_tinv [OF git_exit(3)] assms(2) show ?thesis
    by (simp add: srv_invs_def reportStatus_ok callbacks_keep timers_inv_def)
next
  case (list_done xs i u sl ys res n)
  from srv_run_effects_tinv [OF list_done(3)] assms(2) show ?thesis
    by (simp add: srv_invs_def files_cb_ok callbacks_keep timers_inv_def)
next
  case (sweep_done xs keys ys res n)
  from srv_run_effects_tinv [OF sweep_done(3)] assms(2) show ?thesis
    by (simp add: srv_invs_def sweep_cb_ok callbacks_keep timers_inv_def)
next
  case (rimraf_done xs p ys d')
  with assms(2) show ?thesis by (simp add: srv_invs_def timers_inv_def)
qed

lemma srv_reach_invs: "srv_reach cfg g s \<Longrightarrow> srv_invs s"
proof (induction rule: srv_reach.induct)
  case init
  show ?case
    by (simp add: srv_invs_def srv_init_def srv_inv_def req_inv_def req_ids_def timers_inv_def
        sess_timeout_def store_wf_def initial_state_def)
next
  case (step s s')
  then show ?case
    using srv_step_tinv srv_reach_inv [OF srv_reach.step] srv_reach_wf [OF srv_reach.step]
    by (simp add: srv_invs_def)
qed

lemma setRemovalTimeout_step:
  assumes "setRemovalTimeout n cfg i s = Some s'" and "store_wf (store s)"
  shows "store s' = store_reduce (store s) \<lparr>act_session_id = i, act_body = SetTimeout (next_timer s)\<rparr> \<and>
         timers s' = (case (case i of None \<Rightarrow> None | Some j \<Rightarrow> imap_get (sessions (store s)) j) of
                        None \<Rightarrow> timers s | Some se \<Rightarrow> timers (clearTimeout (timeout se) s)) @ [(next_timer s, i)] \<and>
         next_timer s' = Suc (next_timer s) \<and> posts s' = posts s \<and> next_req s' = next_req s"
proof -
  define sc where "sc = (case (case i of None \<Rightarrow> None | Some j \<Rightarrow> imap_get (sessions (store s)) j) of
                           None \<Rightarrow> s | Some se \<Rightarrow> clearTimeout (timeout se) s)"
  have sc: "store sc = store s" "next_timer sc = next_timer s" "posts sc = posts s" "next_req sc = next_req s"
    by (simp_all add: sc_def clearTimeout_def split: option.splits)
  have d: "srv_dispatch n cfg (sc\<lparr>timers := timers sc @ [(next_timer sc, i)], next_timer := Suc (next_timer sc)\<rparr>)
      \<lparr>act_session_id = i, act_body = SetTimeout (next_timer sc)\<rparr> = Some s'"
    using assms(1) by (simp add: setRemovalTimeout_def Let_def sc_def)
  from srv_dispatch_frame [OF d] assms(2) sc show ?thesis
    by (simp add: sc_def split: option.splits)
qed

lemma setRemovalTimeout_hits:
  assumes "setRemovalTimeout n cfg i s = Some s'" and "store_wf (store s)"
  shows "hits s' = hits s"
proof -
  define sc where "sc = (case (case i of None \<Rightarrow> None | Some j \<Rightarrow> imap_get (sessions (store s)) j) of
                           None \<Rightarrow> s | Some se \<Rightarrow> clearTimeout (timeout se) s)"
  have d: "srv_dispatch n cfg (sc\<lparr>timers := timers sc @ [(next_timer sc, i)], next_timer := Suc (next_timer sc)\<rparr>)
      \<lparr>act_session_id = i, act_body = SetTimeout (next_timer sc)\<rparr> = Some s'"
    using assms(1) by (simp add: setRemovalTimeout_def Let_def sc_def)
  have "store sc = store s" "hits sc = hits s" by (simp_all add: sc_def clearTimeout_def split: option.splits)
  with srv_dispatch_hits [OF d] assms(2) show ?thesis by simp
qed

lemma setRemovalTimeout_some:
  assumes "store_wf (store s)"
  shows "\<exists>s'. setRemovalTimeout (Suc n) cfg i s = Some s'"
proof -
  define sc where "sc = (case (case i of None \<Rightarrow> None | Some j \<Rightarrow> imap_get (sessions (store s)) j) of
                           None \<Rightarrow> s | Some se \<Rightarrow> clearTimeout (timeout se) s)"
  have "store_wf (store (sc\<lparr>timers := timers sc @ [(next_timer sc, i)], next_timer := Suc (next_timer sc)\<rparr>))"
    using assms by (simp add: sc_def clearTimeout_def split: option.splits)
  then have "\<exists>s'. srv_dispatch (Suc n) cfg
      (sc\<lparr>timers := timers sc @ [(next_timer sc, i)], next_timer := Suc (next_timer sc)\<rparr>)
      \<lparr>act_session_id = i, act_body = SetTimeout (next_timer sc)\<rparr> = Some s'"
    by (rule srv_dispatch_some) simp
  then show ?thesis by (simp only: setRemovalTimeout_def Let_def sc_def)
qed

lemma setRemovalTimeout_wf:
  "setRemovalTimeout n cfg i s = Some s' \<Longrightarrow> store_wf (store s) \<Longrightarrow> store_wf (store s')"
  using setRemovalTimeout_step store_reduce_wf by fastforce

lemma handle_request_some:
  assumes "store_wf (store s)"
  shows "\<exists>s'. handle_request (Suc n) cfg q f s = Some s'"
proof -
  obtain s1 where s1: "setRemovalTimeout (Suc n) cfg (req_cookie q) s = Some s1"
    using setRemovalTimeout_some [OF assms] by blast
  have wf1: "store_wf (store s1)" by (rule setRemovalTimeout_wf [OF s1 assms])
  obtain s2 where s2: "(if req_cookie q = None then setRemovalTimeout (Suc n) cfg (Some f) s1 else Some s1) = Some s2"
    using setRemovalTimeout_some [OF wf1, of n cfg "Some f"] by (cases "req_cookie q = None") auto
  from s1 s2 show ?thesis by (simp add: handle_request_def)
qed

text \<open>
  A first request without a cookie that posts \<open>u\<close>: the session \<^verbatim>\<open>s1\<close> gets its
  removal timer, the cookie-less timer stays pending, and the body waits for the parser.
\<close>

lemma first_post_reachable:
  "\<exists>S1 t. srv_reach cfg g S1 \<and> timers S1 = [(0, None)] @ (t, Some ''s1'') # [] \<and>
          posts S1 = [] @ (0, Some ''s1'', u) # [] \<and>
          store S1 = store_reduce initial_state \<lparr>act_session_id = Some ''s1'', act_body = SetTimeout t\<rparr>"
proof -
  let ?S0 = "srv_init cfg"
  have wf0: "store_wf (store ?S0)" by (simp add: srv_init_def store_wf_def initial_state_def)
  obtain Sa where a: "setRemovalTimeout (Suc 0) cfg None ?S0 = Some Sa"
    using setRemovalTimeout_some [OF wf0] by blast
  have fa: "store Sa = initial_state" "timers Sa = [(0, None)]" "next_req Sa = 0" "posts Sa = []"
    using setRemovalTimeout_step [OF a wf0] by (simp_all add: srv_init_def store_reduce_def)
  have wfa: "store_wf (store Sa)" by (rule setRemovalTimeout_wf [OF a wf0])
  obtain Sb where b: "setRemovalTimeout (Suc 0) cfg (Some ''s1'') Sa = Some Sb"
    using setRemovalTimeout_some [OF wfa] by blast
  have fb: "store Sb = store_reduce initial_state \<lparr>act_session_id = Some ''s1'', act_body = SetTimeout (next_timer Sa)\<rparr>"
    "timers Sb = [(0, None), (next_timer Sa, Some ''s1'')]" "next_req Sb = 0" "posts Sb = []"
    using setRemovalTimeout_step [OF b wfa] fa by (simp_all add: initial_state_def)
  define S1 where "S1 = route_handler cfg (next_req Sb) (Some ''s1'') (RoutePost u)
    (Sb\<lparr>next_req := Suc (next_req Sb), hits := [(''c'', 1)]\<rparr>)"
  have "hits Sb = []"
    using setRemovalTimeout_hits [OF b wfa] setRemovalTimeout_hits [OF a wf0] by (simp add: srv_init_def)
  then have "handle_request (Suc 0) cfg \<lparr>req_cookie = None, req_remote = ''c'', req_xff = [], req_kind = ReqPost u\<rparr>
      ''s1'' ?S0 = Some S1"
    by (auto simp add: handle_request_def a b S1_def req_ip_def rate_limit_def hit_count_def)
  then have r1: "srv_reach cfg g S1" by (blast intro: srv_reach.step srv_reach.init srv_step.request)
  have "timers S1 = [(0, None)] @ (next_timer Sa, Some ''s1'') # []" "posts S1 = [] @ (0, Some ''s1'', u) # []"
    "store S1 = store_reduce initial_state \<lparr>act_session_id = Some ''s1'', act_body = SetTimeout (next_timer Sa)\<rparr>"
    using fb by (simp_all add: S1_def)
  with r1 show ?thesis by blast
qed

subsection \<open>Properties of the removal timers\<close>

text \<open>
  C34. The removal timers of \<^verbatim>\<open>setRemovalTimeout\<close>: in every reachable state the
  pending timer handles are distinct, and a timer that removes session \<open>j\<close> is pending
  exactly when \<open>j\<close> is live and records that handle as its \<^verbatim>\<open>timeout\<close>, so a live
  session has at most one pending removal and \<^verbatim>\<open>clearTimeout\<close> cancels the one it had.
\<close>

theorem srv_removal_timer:
  assumes "srv_reach cfg g s"
  shows "distinct (map fst (timers s)) \<and>
         ((t, Some j) \<in> set (timers s) \<longleftrightarrow>
          (\<exists>se. imap_get (sessions (store s)) j = Some se \<and> timeout se = Some t))"
  using srv_reach_invs [OF assms] by (auto simp: srv_invs_def timers_inv_def sess_timeout_def)

theorem srv_removal_timer_witness:
  "srv_reach example_cfg (\<lambda>_. True) (srv_init example_cfg) \<and>
   distinct (map fst (timers (srv_init example_cfg))) \<and>
   ((0, Some ''s1'') \<in> set (timers (srv_init example_cfg)) \<longleftrightarrow>
    (\<exists>se. imap_get (sessions (store (srv_init example_cfg))) ''s1'' = Some se \<and> timeout se = Some 0))"
  using srv_reach.init srv_removal_timer [OF srv_reach.init] by blast

text \<open>
  C35. A session can outlive its removal timer: the timer of a new session fires while
  the body of its \<^verbatim>\<open>POST /\<close> is being parsed, and the handler's
  \<^verbatim>\<open>startClone\<close> then re-creates the session with no timer. It stays live, and its
  folder is kept by the sweep, until its cookie comes back; the spec bounds every session's
  lifetime by its inactivity timer.
\<close>

theorem orphan_session_reachable:
  assumes "g u"
  shows "\<exists>s. srv_reach cfg g s \<and> imap_get (sessions (store s)) ''s1'' \<noteq> None \<and>
             (\<forall>t. (t, Some ''s1'') \<notin> set (timers s))"
proof -
  obtain S1 t where r1: "srv_reach cfg g S1" and f1: "timers S1 = [(0, None)] @ (t, Some ''s1'') # []"
    "posts S1 = [] @ (0, Some ''s1'', u) # []"
    using first_post_reachable by blast
  have wf1: "store_wf (store (S1\<lparr>timers := [(0, None)] @ []\<rparr>))" using srv_reach_wf [OF r1] by simp
  obtain S2 where d2: "srv_dispatch (Suc 0) cfg (S1\<lparr>timers := [(0, None)] @ []\<rparr>)
      \<lparr>act_session_id = Some ''s1'', act_body = RemoveSession None\<rparr> = Some S2"
    using srv_dispatch_some [OF wf1] by fastforce
  have r2: "srv_reach cfg g S2" by (rule srv_reach.step [OF r1 srv_step.timer [OF f1(1) d2]])
  have f2: "timers S2 = [(0, None)]" "posts S2 = [] @ (0, Some ''s1'', u) # []"
    "store S2 = store_reduce (store S1) \<lparr>act_session_id = Some ''s1'', act_body = RemoveSession None\<rparr>"
    using srv_dispatch_frame [OF d2 wf1] f1 by simp_all
  let ?S2' = "S2\<lparr>posts := [] @ [], waiters := waiters S2 @ [\<lparr>w_req = 0, w_sid = ''s1'', w_url = u\<rparr>]\<rparr>"
  have wf2: "store_wf (store ?S2')" using srv_reach_wf [OF r2] by simp
  obtain S3 where d3: "srv_dispatch (Suc 0) cfg ?S2' \<lparr>act_session_id = Some ''s1'', act_body = StartClone u\<rparr> = Some S3"
    using srv_dispatch_some [OF wf2] by fastforce
  have "post_handler (Suc 0) cfg g 0 (Some ''s1'') u (S2\<lparr>posts := [] @ []\<rparr>) = Some S3"
    using d3 assms by (simp add: post_handler_def)
  then have r3: "srv_reach cfg g S3" by (rule srv_reach.step [OF r2 srv_step.post [OF f2(2)]])
  have f3: "timers S3 = [(0, None)]"
    "store S3 = store_reduce (store S2) \<lparr>act_session_id = Some ''s1'', act_body = StartClone u\<rparr>"
    using srv_dispatch_frame [OF d3 wf2] f2 by simp_all
  have "imap_get (sessions (store S3)) ''s1'' \<noteq> None"
    using f3(2) by (simp add: store_reduce_def imap_simps)
  with r3 f3(1) show ?thesis by auto
qed

theorem orphan_session_reachable_witness:
  "(\<lambda>_. True) ''u'' \<and>
   (\<exists>s. srv_reach example_cfg (\<lambda>_. True) s \<and> imap_get (sessions (store s)) ''s1'' \<noteq> None \<and>
        (\<forall>t. (t, Some ''s1'') \<notin> set (timers s)))"
  using orphan_session_reachable [of "\<lambda>_. True" "''u''" example_cfg] by simp

text \<open>
  C36. Every request is served: on a well-formed store the session middleware and the
  route return (one level of fuel suffices for each dispatch), whatever the cookie, the
  fresh id and the route.
\<close>

theorem srv_request_progress:
  "store_wf (store s) \<Longrightarrow> \<exists>s'. handle_request (Suc n) cfg q f s = Some s'"
  by (rule handle_request_some)

theorem srv_request_progress_witness:
  "store_wf (store (srv_init example_cfg)) \<and>
   (\<exists>s'. handle_request (Suc 0) example_cfg
           \<lparr>req_cookie = None, req_remote = ''c'', req_xff = [], req_kind = ReqPost ''u''\<rparr> ''s1''
           (srv_init example_cfg) = Some s')"
proof -
  have h: "store_wf (store (srv_init example_cfg))"
    by (simp add: srv_init_def store_wf_def initial_state_def)
  from h srv_request_progress [OF h] show ?thesis by blast
qed

end
