(* ===== verification/Server_Limiter.thy ===== *)
theory Server_Limiter
  imports Server_Timers
begin

text \<open>
  The rate limiter of \<^verbatim>\<open>POST /\<close> (\<^verbatim>\<open>src/lib/app.js\<close>, \<^verbatim>\<open>apiLimiter\<close> and
  \<^verbatim>\<open>trust proxy\<close>). \<open>serve_requests\<close> serves a sequence of requests one after the
  other, each a \<open>request\<close> step of \<open>srv_step\<close>; between two resets of the limiter's
  memory store (every \<^verbatim>\<open>MAX_CLONES_WINDOW_MS\<close>) the hit counts only grow. The lemmas
  show what one request does to the counts and to the queue of \<^verbatim>\<open>POST\<close> bodies
  waiting for the handler, the bound this gives per address and window, and that with
  \<^verbatim>\<open>TRUST_PROXY\<close> the address is the client's own \<^verbatim>\<open>X-Forwarded-For\<close> header.
\<close>

fun serve_requests :: "nat \<Rightarrow> config \<Rightarrow> (http_request \<times> sid) list \<Rightarrow> srv \<Rightarrow> srv option" where
  "serve_requests n cfg [] s = Some s"
| "serve_requests n cfg ((q, f) # qs) s =
     (case handle_request n cfg q f s of None \<Rightarrow> None | Some s' \<Rightarrow> serve_requests n cfg qs s')"

text \<open>A request from socket address \<open>a\<close> posting \<open>u\<close> with a forged \<^verbatim>\<open>X-Forwarded-For\<close>.\<close>

definition forged_post :: "ip \<Rightarrow> url \<Rightarrow> ip \<Rightarrow> http_request \<times> sid" where
  "forged_post a u k = (\<lparr>req_cookie = Some ''c'', req_remote = a, req_xff = [k], req_kind = ReqPost u\<rparr>, ''c'')"

subsection \<open>One request\<close>

lemma hit_count_set [simp]: "hit_count (imap_set k c h) k' = (if k' = k then c else hit_count h k')"
  by (simp add: hit_count_def imap_simps)

lemma rate_limit_eq:
  "rate_limit cfg k h =
     (imap_set k (Suc (hit_count h k)) h, max_clones_per_ip cfg = 0 \<or> Suc (hit_count h k) \<le> max_clones_per_ip cfg)"
  by (auto simp: rate_limit_def Let_def)

text \<open>
  A request leaves the store well-formed, counts a hit for its address when it is a
  \<^verbatim>\<open>POST /\<close>, and adds one body to the queue exactly when the limiter lets it through.
\<close>

lemma handle_request_limiter:
  assumes "handle_request n cfg q f s = Some s'" and "store_wf (store s)"
  shows "store_wf (store s') \<and>
         hits s' = (case req_kind q of ReqPost u \<Rightarrow> fst (rate_limit cfg (req_ip cfg q) (hits s)) | _ \<Rightarrow> hits s) \<and>
         length (posts s') = length (posts s) +
           (case req_kind q of ReqPost u \<Rightarrow> if snd (rate_limit cfg (req_ip cfg q) (hits s)) then 1 else 0 | _ \<Rightarrow> 0)"
proof -
  obtain s1 s2 where s1: "setRemovalTimeout n cfg (req_cookie q) s = Some s1"
    and s2: "(if req_cookie q = None then setRemovalTimeout n cfg (Some f) s1 else Some s1) = Some s2"
    and s': "s' = route_request cfg (req_ip cfg q) (next_req s2)
                    (if req_cookie q = None then Some f else req_cookie q) (req_kind q)
                    (s2\<lparr>next_req := Suc (next_req s2)\<rparr>)"
    using assms(1) by (auto simp: handle_request_def split: option.splits)
  have wf1: "store_wf (store s1)" and f1: "hits s1 = hits s" "posts s1 = posts s"
    using setRemovalTimeout_wf [OF s1 assms(2)] setRemovalTimeout_hits [OF s1 assms(2)]
      setRemovalTimeout_step [OF s1 assms(2)] by simp_all
  have wf2: "store_wf (store s2) \<and> hits s2 = hits s \<and> posts s2 = posts s"
  proof (cases "req_cookie q = None")
    case True
    with s2 have s2': "setRemovalTimeout n cfg (Some f) s1 = Some s2" by simp
    show ?thesis using setRemovalTimeout_wf [OF s2' wf1] setRemovalTimeout_hits [OF s2' wf1]
      setRemovalTimeout_step [OF s2' wf1] f1 by simp
  next
    case False
    with s2 wf1 f1 show ?thesis by simp
  qed
  show ?thesis
    using wf2 s' by (cases "req_kind q") (auto simp: files_route_def respond_def split: option.splits prod.split)
qed

lemma serve_requests_reach:
  "serve_requests n cfg qs s = Some s' \<Longrightarrow> srv_reach cfg g s \<Longrightarrow> srv_reach cfg g s'"
proof (induction qs arbitrary: s)
  case (Cons p qs)
  obtain q f where p: "p = (q, f)" by fastforce
  with Cons.prems obtain s1 where h: "handle_request n cfg q f s = Some s1"
    and r: "serve_requests n cfg qs s1 = Some s'" by (auto split: option.splits)
  have "srv_reach cfg g s1" by (rule srv_reach.step [OF Cons.prems(2) srv_step.request [OF h]])
  then show ?case by (rule Cons.IH [OF r])
qed simp

lemma serve_requests_some:
  "store_wf (store s) \<Longrightarrow> \<exists>s'. serve_requests (Suc n) cfg qs s = Some s' \<and> store_wf (store s')"
proof (induction qs arbitrary: s)
  case (Cons p qs)
  obtain q f where p: "p = (q, f)" by fastforce
  obtain s1 where h: "handle_request (Suc n) cfg q f s = Some s1"
    using handle_request_some [OF Cons.prems] by blast
  have "store_wf (store s1)" using handle_request_limiter [OF h Cons.prems] by simp
  with Cons.IH h p show ?case by simp
qed simp

lemma fresh_ip_exists: "\<exists>k :: ip. k \<notin> set (map fst h)"
  using ex_new_if_finite [OF infinite_UNIV_listI] by blast

subsection \<open>The bound per address and window\<close>

text \<open>
  C17. Between two resets of its memory store, the limiter lets at most
  \<^verbatim>\<open>MAX_CLONES_PER_IP\<close> requests of one address through to the \<^verbatim>\<open>POST /\<close>
  handler, less the hits the address already has: whatever the routes of a sequence of
  requests from one address, the queue of bodies waiting for the handler grows by at
  most \<^verbatim>\<open>MAX_CLONES_PER_IP\<close> minus that count.
\<close>

theorem limiter_window_bound:
  assumes "serve_requests n cfg qs s = Some s'" and "store_wf (store s)"
    and "\<forall>(q, f) \<in> set qs. req_ip cfg q = k" and "max_clones_per_ip cfg \<noteq> 0"
  shows "length (posts s') \<le> length (posts s) + (max_clones_per_ip cfg - hit_count (hits s) k)"
  using assms(1-3)
proof (induction qs arbitrary: s)
  case (Cons p qs)
  obtain q f where p: "p = (q, f)" by fastforce
  with Cons.prems(1) obtain s1 where h: "handle_request n cfg q f s = Some s1"
    and r: "serve_requests n cfg qs s1 = Some s'" by (auto split: option.splits)
  have k: "req_ip cfg q = k" using Cons.prems(3) p by auto
  note l = handle_request_limiter [OF h Cons.prems(2)]
  have ih: "length (posts s') \<le> length (posts s1) + (max_clones_per_ip cfg - hit_count (hits s1) k)"
    using Cons.IH [OF r] l Cons.prems(3) p by simp
  show ?case
  proof (cases "req_kind q")
    case (ReqPost u)
    with l k ih assms(4) show ?thesis by (auto simp: rate_limit_eq split: if_splits)
  qed (use l ih in simp_all)
qed simp

theorem limiter_window_bound_witness:
  "store_wf (store (srv_init example_cfg)) \<and>
   req_ip example_cfg \<lparr>req_cookie = None, req_remote = ''c'', req_xff = [], req_kind = ReqPost ''u''\<rparr> = ''c'' \<and>
   max_clones_per_ip example_cfg \<noteq> 0 \<and>
   (\<exists>s'. serve_requests (Suc 0) example_cfg
           (replicate 6 (\<lparr>req_cookie = None, req_remote = ''c'', req_xff = [], req_kind = ReqPost ''u''\<rparr>, ''s1''))
           (srv_init example_cfg) = Some s' \<and> length (posts s') \<le> 5)"
proof -
  have wf: "store_wf (store (srv_init example_cfg))"
    by (simp add: srv_init_def store_wf_def initial_state_def)
  obtain s' where s': "serve_requests (Suc 0) example_cfg
      (replicate 6 (\<lparr>req_cookie = None, req_remote = ''c'', req_xff = [], req_kind = ReqPost ''u''\<rparr>, ''s1''))
      (srv_init example_cfg) = Some s'"
    using serve_requests_some [OF wf] by blast
  have "length (posts s') \<le> length (posts (srv_init example_cfg)) +
          (max_clones_per_ip example_cfg - hit_count (hits (srv_init example_cfg)) ''c'')"
    by (rule limiter_window_bound [OF s' wf]) (simp_all add: req_ip_def example_cfg_def)
  then have "length (posts s') \<le> 5" by (simp add: srv_init_def example_cfg_def hit_count_def)
  with wf s' show ?thesis by (simp add: req_ip_def example_cfg_def)
qed

subsection \<open>The limiter behind \<^verbatim>\<open>trust proxy\<close>\<close>

text \<open>
  C19. With \<^verbatim>\<open>TRUST_PROXY\<close>, \<^verbatim>\<open>req.ip\<close> is the left-most address of
  \<^verbatim>\<open>X-Forwarded-For\<close>, which the client writes: one client, from one socket address,
  gets any number of \<^verbatim>\<open>POST /\<close> bodies through to the handler in one window by
  sending each request with a different header, whatever \<^verbatim>\<open>MAX_CLONES_PER_IP\<close> is.
\<close>

theorem trust_proxy_bypass:
  assumes "trust_proxy cfg" and "store_wf (store s)"
  shows "\<exists>ks s'. length ks = m \<and> serve_requests (Suc n) cfg (map (forged_post a u) ks) s = Some s' \<and>
                 length (posts s') = length (posts s) + m"
  using assms(2)
proof (induction m arbitrary: s)
  case 0
  then show ?case by (intro exI [of _ "[]"]) simp
next
  case (Suc m)
  obtain k where k: "k \<notin> set (map fst (hits s))" using fresh_ip_exists by blast
  then have "map_of (hits s) k = None" by (simp add: map_of_eq_None_iff)
  then have c: "hit_count (hits s) k = 0" by (simp add: hit_count_def)
  obtain s1 where h: "handle_request (Suc n) cfg (fst (forged_post a u k)) (snd (forged_post a u k)) s = Some s1"
    using handle_request_some [OF Suc.prems] by blast
  have l: "store_wf (store s1)" "length (posts s1) = Suc (length (posts s))"
    using handle_request_limiter [OF h Suc.prems] c assms(1) not0_implies_Suc [of "max_clones_per_ip cfg"]
    by (auto simp: forged_post_def req_ip_def rate_limit_eq)
  obtain ks s' where "length ks = m" and r: "serve_requests (Suc n) cfg (map (forged_post a u) ks) s1 = Some s'"
    and "length (posts s') = length (posts s1) + m"
    using Suc.IH [OF l(1)] by blast
  moreover have "serve_requests (Suc n) cfg (map (forged_post a u) (k # ks)) s = Some s'"
    using h r by (simp add: forged_post_def)
  ultimately show ?case using l(2) by (intro exI [of _ "k # ks"]) auto
qed

theorem trust_proxy_bypass_witness:
  "trust_proxy (example_cfg\<lparr>trust_proxy := True\<rparr>) \<and>
   store_wf (store (srv_init (example_cfg\<lparr>trust_proxy := True\<rparr>))) \<and>
   (\<exists>ks s'. length ks = 10 \<and>
      serve_requests (Suc 0) (example_cfg\<lparr>trust_proxy := True\<rparr>) (map (forged_post ''203.0.113.7'' ''u'') ks)
        (srv_init (example_cfg\<lparr>trust_proxy := True\<rparr>)) = Some s' \<and>
      length (posts s') = 10)"
proof -
  have wf: "store_wf (store (srv_init (example_cfg\<lparr>trust_proxy := True\<rparr>)))"
    by (simp add: srv_init_def store_wf_def initial_state_def)
  from trust_proxy_bypass [OF _ wf, where cfg = "example_cfg\<lparr>trust_proxy := True\<rparr>" and m = 10 and n = 0 and a = "''203.0.113.7''" and u = "''u''"] wf
  show ?thesis
    by (simp add: srv_init_def)
qed

end
