(* ===== verification/Server_Stuck.thy ===== *)
theory Server_Stuck
  imports Server_Timers
begin

text \<open>
  Requests that are never answered (\<^verbatim>\<open>src/lib/app.js\<close>, the store listener of
  \<^verbatim>\<open>POST /\<close>). The listener returns without unsubscribing when the session or its
  repository entry is missing, and it is the only thing that answers the request. When the
  removal timer of a session fires after its \<^verbatim>\<open>POST\<close> subscribed, the entry is gone, and
  the listener stays subscribed and silent. \<open>stuck r j u s\<close> says that listener
  \<open>r\<close> of session \<open>j\<close> and URL \<open>u\<close> waits on an absent entry and no
  \<^verbatim>\<open>POST\<close> of \<open>u\<close> for \<open>j\<close> is being parsed. Every step that does not queue
  such a \<^verbatim>\<open>POST\<close> keeps it, since only \<^verbatim>\<open>startClone\<close> of \<open>u\<close> in \<open>j\<close> creates
  the entry and the callbacks of the reactor only dispatch \<^verbatim>\<open>setRepoStatus\<close>.
\<close>

definition starts_clone :: "sid \<Rightarrow> url \<Rightarrow> action \<Rightarrow> bool" where
  "starts_clone j u a \<longleftrightarrow> act_session_id a = Some j \<and> act_body a = StartClone u"

definition no_clone_effects :: "sid \<Rightarrow> url \<Rightarrow> effect list \<Rightarrow> bool" where
  "no_clone_effects j u es \<longleftrightarrow> (\<forall>a. Dispatch a \<in> set es \<longrightarrow> \<not> starts_clone j u a)"

definition no_post :: "sid \<Rightarrow> url \<Rightarrow> srv \<Rightarrow> bool" where
  "no_post j u s \<longleftrightarrow> list_all (\<lambda>(r, i, v). i \<noteq> Some j \<or> v \<noteq> u) (posts s)"

text \<open>An entry on which the listener neither answers nor unsubscribes.\<close>

definition silent :: "repo option \<Rightarrow> bool" where
  "silent e \<longleftrightarrow> (case e of None \<Rightarrow> True | Some rp \<Rightarrow> repo_status rp \<noteq> Done \<and> repo_status rp \<noteq> Failed)"

definition stuck :: "nat \<Rightarrow> sid \<Rightarrow> url \<Rightarrow> srv \<Rightarrow> bool" where
  "stuck r j u s \<longleftrightarrow>
     \<lparr>w_req = r, w_sid = j, w_url = u\<rparr> \<in> set (waiters s) \<and> store_entry (store s) j u = None \<and>
     no_post j u s"

subsection \<open>Only \<^verbatim>\<open>startClone\<close> creates an entry\<close>

lemma entry_none_reduce:
  assumes "store_entry st j u = None" and "\<not> starts_clone j u a"
  shows "store_entry (store_reduce st a) j u = None"
proof -
  have s: "imap_get (repos (case imap_get (sessions st) j of None \<Rightarrow> empty_session | Some s \<Rightarrow> s)) u = None"
    using assms(1) by (simp add: store_entry_session)
  show ?thesis
  proof (cases "act_session_id a")
    case None
    with assms(1) show ?thesis by (simp add: store_entry_reduce)
  next
    case (Some i)
    show ?thesis
    proof (cases "i = j")
      case False
      with Some assms(1) show ?thesis
        by (cases "act_body a") (simp_all add: store_entry_reduce)
    next
      case True
      with Some assms(2) s show ?thesis
        by (cases "act_body a")
           (simp_all add: store_entry_reduce starts_clone_def store_startClone_entry
              store_setRepoStatus_entry store_setTimeout_def split: option.splits)
    qed
  qed
qed

lemma no_clone_effects_simps [simp]:
  "no_clone_effects j u []"
  "no_clone_effects j u (Spawn t # es) \<longleftrightarrow> no_clone_effects j u es"
  "no_clone_effects j u (Dispatch a # es) \<longleftrightarrow> \<not> starts_clone j u a \<and> no_clone_effects j u es"
  by (auto simp: no_clone_effects_def)

lemma callbacks_no_clone:
  "no_clone_effects j u (exists_cb cfg i v sl ex)" "no_clone_effects j u (reportStatus i v code)"
  "no_clone_effects j u (files_cb cfg i v res)" "no_clone_effects j u (sweep_cb cfg keys res2)"
  by (auto simp: no_clone_effects_def starts_clone_def exists_cb_def reportStatus_def files_cb_def
      sweep_cb_def setRepoStatus_def split: sum.splits)

subsection \<open>The silent listener stays subscribed\<close>

lemma waiter_cb_keeps:
  assumes "waiter_cb w' s = Some s1" and "w \<in> set (waiters s)"
    and "w' = w \<longrightarrow> silent (store_entry (store s) (w_sid w) (w_url w))"
    and "w' \<noteq> w \<longrightarrow> w_req w' \<noteq> w_req w"
  shows "w \<in> set (waiters s1) \<and> store s1 = store s"
proof (cases "w' = w")
  case True
  have e: "silent (store_entry (store s) (w_sid w) (w_url w))" using True assms(3) by simp
  have "waiter_cb w s = Some s"
  proof (cases "imap_get (sessions (store s)) (w_sid w)")
    case None
    then show ?thesis by (simp add: waiter_cb_def)
  next
    case (Some se)
    show ?thesis
    proof (cases "imap_get (repos se) (w_url w)")
      case None
      with Some show ?thesis by (simp add: waiter_cb_def)
    next
      case (Some rp)
      with \<open>imap_get (sessions (store s)) (w_sid w) = Some se\<close> e show ?thesis
        by (simp add: waiter_cb_def store_entry_def silent_def)
    qed
  qed
  with True assms(1) have "s1 = s" by simp
  with assms(2) show ?thesis by simp
next
  case False
  have "s1 = s \<or> (\<exists>x. s1 = unsubscribe (w_req w') (respond (w_req w') x s))"
    using assms(1) by (auto simp: waiter_cb_def split: option.splits if_splits)
  with False assms(2,4) show ?thesis by (auto simp: unsubscribe_def respond_def)
qed

lemma notify_keeps:
  "notify ws s = Some s' \<Longrightarrow> w \<in> set (waiters s) \<Longrightarrow> silent (store_entry (store s) (w_sid w) (w_url w)) \<Longrightarrow>
   (\<forall>w' \<in> set ws. w' \<noteq> w \<longrightarrow> w_req w' \<noteq> w_req w) \<Longrightarrow> w \<in> set (waiters s')"
proof (induction ws arbitrary: s)
  case (Cons w' ws)
  then obtain s1 where c: "waiter_cb w' s = Some s1" and n: "notify ws s1 = Some s'"
    by (auto split: option.splits)
  have o: "w' \<noteq> w \<longrightarrow> w_req w' \<noteq> w_req w" "\<forall>w'' \<in> set ws. w'' \<noteq> w \<longrightarrow> w_req w'' \<noteq> w_req w"
    using Cons.prems(4) by simp_all
  have k: "w \<in> set (waiters s1) \<and> store s1 = store s"
    by (rule waiter_cb_keeps [OF c Cons.prems(2) _ o(1)]) (simp add: Cons.prems(3))
  then have "silent (store_entry (store s1) (w_sid w) (w_url w))" using Cons.prems(3) by simp
  with k show ?case by (intro Cons.IH [OF n _ _ o(2)]) simp_all
qed simp

lemma distinct_req_other:
  "distinct (map w_req ws) \<Longrightarrow> w \<in> set ws \<Longrightarrow> \<forall>w' \<in> set ws. w' \<noteq> w \<longrightarrow> w_req w' \<noteq> w_req w"
  by (auto dest: inj_onD [OF distinct_map [THEN iffD1, THEN conjunct2]])

text \<open>A dispatch after which the entry is silent keeps the listener subscribed.\<close>

lemma srv_dispatch_keeps:
  assumes "srv_dispatch n cfg s a = Some s'" and "store_wf (store s)" and "action_ok (act_body a)"
    and "silent (store_entry (store_reduce (store s) a) j u)"
    and "\<lparr>w_req = r, w_sid = j, w_url = u\<rparr> \<in> set (waiters s)" and "req_inv s"
  shows "\<lparr>w_req = r, w_sid = j, w_url = u\<rparr> \<in> set (waiters s') \<and> store s' = store_reduce (store s) a \<and>
         req_inv s' \<and> store_wf (store s') \<and> posts s' = posts s"
proof -
  obtain ts where n: "notify (waiters s) (s\<lparr>store := store_reduce (store s) a, tasks := tasks s @ ts,
      prev := store_reduce (store s) a\<rparr>) = Some s'"
    using srv_dispatch_wf [OF assms(1-3)] by blast
  have "\<lparr>w_req = r, w_sid = j, w_url = u\<rparr> \<in> set (waiters s')"
    by (rule notify_keeps [OF n]) (use assms(4,5) distinct_req_other [OF req_inv_waiters [OF assms(6)] assms(5)] in simp_all)
  moreover have "store s' = store_reduce (store s) a \<and> posts s' = posts s"
    using srv_dispatch_frame [OF assms(1-3)] by simp
  ultimately show ?thesis
    using srv_dispatch_req_inv [OF assms(1-3,6)] store_reduce_wf [OF assms(2,3)] by simp
qed

lemma srv_run_effects_keeps:
  "srv_run_effects n cfg s es = Some s' \<Longrightarrow> store_wf (store s) \<Longrightarrow> effects_ok es \<Longrightarrow>
   no_clone_effects j u es \<Longrightarrow> store_entry (store s) j u = None \<Longrightarrow>
   \<lparr>w_req = r, w_sid = j, w_url = u\<rparr> \<in> set (waiters s) \<Longrightarrow> req_inv s \<Longrightarrow>
   \<lparr>w_req = r, w_sid = j, w_url = u\<rparr> \<in> set (waiters s') \<and> store_entry (store s') j u = None \<and>
   posts s' = posts s"
proof (induction es arbitrary: s)
  case (Cons e es)
  show ?case
  proof (cases e)
    case (Dispatch a)
    with Cons.prems obtain s1 where d: "srv_dispatch n cfg s a = Some s1"
      and r: "srv_run_effects n cfg s1 es = Some s'"
      by (auto split: option.splits)
    from Cons.prems Dispatch have ok: "action_ok (act_body a)" "effects_ok es"
      "\<not> starts_clone j u a" "no_clone_effects j u es" by simp_all
    have e: "store_entry (store_reduce (store s) a) j u = None"
      by (rule entry_none_reduce [OF Cons.prems(5) ok(3)])
    then have "silent (store_entry (store_reduce (store s) a) j u)" by (simp add: silent_def)
    note k = srv_dispatch_keeps [OF d Cons.prems(2) ok(1) this Cons.prems(6,7)]
    have k1: "\<lparr>w_req = r, w_sid = j, w_url = u\<rparr> \<in> set (waiters s1)" "store_entry (store s1) j u = None"
      "req_inv s1" "store_wf (store s1)" "posts s1 = posts s"
      using k e by auto
    from Cons.IH [OF r k1(4) ok(2) ok(4) k1(2) k1(1) k1(3)] k1(5) show ?thesis by simp
  next
    case (Spawn t)
    let ?s = "s\<lparr>tasks := tasks s @ [t]\<rparr>"
    from Cons.prems(1) Spawn have r: "srv_run_effects n cfg ?s es = Some s'" by simp
    have "req_inv ?s" using Cons.prems(7) by (simp add: req_inv_def req_ids_def)
    with Cons.IH [OF r] Cons.prems(2-6) Spawn show ?thesis by simp
  qed
qed simp

lemma setRemovalTimeout_keeps:
  assumes "setRemovalTimeout n cfg i s = Some s'" and "store_wf (store s)" and "req_inv s"
    and "store_entry (store s) j u = None" and "\<lparr>w_req = r, w_sid = j, w_url = u\<rparr> \<in> set (waiters s)"
  shows "\<lparr>w_req = r, w_sid = j, w_url = u\<rparr> \<in> set (waiters s') \<and> store_entry (store s') j u = None \<and>
         req_inv s' \<and> store_wf (store s') \<and> posts s' = posts s"
proof -
  define sc where "sc = (case (case i of None \<Rightarrow> None | Some j \<Rightarrow> imap_get (sessions (store s)) j) of
                           None \<Rightarrow> s | Some se \<Rightarrow> clearTimeout (timeout se) s)"
  let ?a = "\<lparr>act_session_id = i, act_body = SetTimeout (next_timer sc)\<rparr>"
  let ?sc = "sc\<lparr>timers := timers sc @ [(next_timer sc, i)], next_timer := Suc (next_timer sc)\<rparr>"
  have d: "srv_dispatch n cfg ?sc ?a = Some s'"
    using assms(1) by (simp add: setRemovalTimeout_def Let_def sc_def)
  have f: "store ?sc = store s" "waiters ?sc = waiters s" "posts ?sc = posts s" "req_inv ?sc"
    using assms(3) by (simp_all add: sc_def clearTimeout_def req_inv_def req_ids_def split: option.splits)
  have e: "store_entry (store_reduce (store ?sc) ?a) j u = None"
    using entry_none_reduce [OF assms(4)] f(1) by (simp add: starts_clone_def)
  then have si: "silent (store_entry (store_reduce (store ?sc) ?a) j u)" by (simp add: silent_def)
  have w: "\<lparr>w_req = r, w_sid = j, w_url = u\<rparr> \<in> set (waiters ?sc)" and wf: "store_wf (store ?sc)"
    and ok: "action_ok (act_body ?a)" using f assms(2,5) by simp_all
  from srv_dispatch_keeps [OF d wf ok si w f(4)] e f show ?thesis by auto
qed

lemma route_handler_frame:
  "waiters (route_handler cfg r i rt s) = waiters s \<and> store (route_handler cfg r i rt s) = store s"
  by (cases rt) (simp_all add: files_route_def respond_def split: option.splits)

lemma req_inv_subscribe:
  assumes "req_inv s" and "posts s = xs @ (r', i, v) # ys"
  shows "req_inv (s\<lparr>posts := xs @ ys, waiters := waiters s @ [\<lparr>w_req = r', w_sid = j', w_url = v\<rparr>]\<rparr>)"
  using assms by (auto simp: req_inv_def req_ids_def)

subsection \<open>One step keeps the request waiting\<close>

lemma handle_request_keeps:
  assumes "handle_request n cfg q f s = Some s'" and "srv_invs s" and "stuck r j u s"
  shows "\<lparr>w_req = r, w_sid = j, w_url = u\<rparr> \<in> set (waiters s') \<and> store_entry (store s') j u = None"
proof -
  obtain s1 s2 rt h where s1: "setRemovalTimeout n cfg (req_cookie q) s = Some s1"
    and s2: "(if req_cookie q = None then setRemovalTimeout n cfg (Some f) s1 else Some s1) = Some s2"
    and s': "s' = route_handler cfg (next_req s2) (if req_cookie q = None then Some f else req_cookie q) rt
                (s2\<lparr>next_req := Suc (next_req s2), hits := h\<rparr>)"
    using assms(1) by (rule handle_request_split)
  have i: "store_wf (store s)" "req_inv s" using assms(2) by (simp_all add: srv_invs_def srv_inv_def)
  have w: "\<lparr>w_req = r, w_sid = j, w_url = u\<rparr> \<in> set (waiters s)" "store_entry (store s) j u = None"
    using assms(3) by (simp_all add: stuck_def)
  have k1: "\<lparr>w_req = r, w_sid = j, w_url = u\<rparr> \<in> set (waiters s1)" "store_entry (store s1) j u = None"
    "req_inv s1" "store_wf (store s1)"
    using setRemovalTimeout_keeps [OF s1 i(1) i(2) w(2) w(1)] by simp_all
  have "\<lparr>w_req = r, w_sid = j, w_url = u\<rparr> \<in> set (waiters s2) \<and> store_entry (store s2) j u = None"
  proof (cases "req_cookie q = None")
    case True
    with s2 have s2': "setRemovalTimeout n cfg (Some f) s1 = Some s2" by simp
    show ?thesis using setRemovalTimeout_keeps [OF s2' k1(4) k1(3) k1(2) k1(1)] by simp
  next
    case False
    with s2 k1 show ?thesis by simp
  qed
  with s' route_handler_frame show ?thesis by simp
qed

lemma post_handler_keeps:
  assumes "post_handler n cfg g r' i v (s\<lparr>posts := xs @ ys\<rparr>) = Some s'" and "posts s = xs @ (r', i, v) # ys"
    and "srv_invs s" and "stuck r j u s"
  shows "\<lparr>w_req = r, w_sid = j, w_url = u\<rparr> \<in> set (waiters s') \<and> store_entry (store s') j u = None"
proof (cases "\<exists>j'. i = Some j' \<and> g v")
  case True
  then obtain j' where j': "i = Some j'" and gv: "g v" by blast
  let ?s = "s\<lparr>posts := xs @ ys, waiters := waiters s @ [\<lparr>w_req = r', w_sid = j', w_url = v\<rparr>]\<rparr>"
  let ?a = "\<lparr>act_session_id = Some j', act_body = StartClone v\<rparr>"
  from assms(1) j' gv have d: "srv_dispatch n cfg ?s ?a = Some s'" by (simp add: post_handler_def)
  have i: "store_wf (store s)" "req_inv s" using assms(3) by (simp_all add: srv_invs_def srv_inv_def)
  have "(r', i, v) \<in> set (posts s)" using assms(2) by simp
  with assms(4) j' have "\<not> starts_clone j u ?a" by (auto simp: stuck_def no_post_def starts_clone_def list_all_iff)
  with assms(4) have e: "store_entry (store_reduce (store ?s) ?a) j u = None"
    by (simp add: entry_none_reduce stuck_def)
  then have si: "silent (store_entry (store_reduce (store ?s) ?a) j u)" by (simp add: silent_def)
  have w: "\<lparr>w_req = r, w_sid = j, w_url = u\<rparr> \<in> set (waiters ?s)" using assms(4) by (simp add: stuck_def)
  have wf: "store_wf (store ?s)" and ok: "action_ok (act_body ?a)" using i(1) by simp_all
  from srv_dispatch_keeps [OF d wf ok si w req_inv_subscribe [OF i(2) assms(2)]] e show ?thesis by auto
next
  case False
  with assms(1,4) show ?thesis
    by (cases i) (auto simp: post_handler_def respond_def stuck_def)
qed

lemma stuck_step:
  assumes "srv_step cfg g s s'" and "srv_invs s" and "stuck r j u s" and "no_post j u s'"
  shows "stuck r j u s'"
proof -
  have i: "store_wf (store s)" "req_inv s" using assms(2) by (simp_all add: srv_invs_def srv_inv_def)
  have w: "\<lparr>w_req = r, w_sid = j, w_url = u\<rparr> \<in> set (waiters s)" "store_entry (store s) j u = None"
    using assms(3) by (simp_all add: stuck_def)
  have "\<lparr>w_req = r, w_sid = j, w_url = u\<rparr> \<in> set (waiters s') \<and> store_entry (store s') j u = None"
    using assms(1)
  proof cases
    case (request n q fresh)
    then show ?thesis using handle_request_keeps assms(2,3) by blast
  next
    case limiter_reset
    with w show ?thesis by simp
  next
    case (post xs r' i v ys n)
    then show ?thesis using post_handler_keeps assms(2,3) by blast
  next
    case (timer xs t i ys n)
    let ?a = "\<lparr>act_session_id = i, act_body = RemoveSession None\<rparr>"
    have e: "store_entry (store_reduce (store s) ?a) j u = None"
      using entry_none_reduce [OF w(2)] by (simp add: starts_clone_def)
    then have si: "silent (store_entry (store_reduce (store (s\<lparr>timers := xs @ ys\<rparr>)) ?a) j u)"
      by (simp add: silent_def)
    have w': "\<lparr>w_req = r, w_sid = j, w_url = u\<rparr> \<in> set (waiters (s\<lparr>timers := xs @ ys\<rparr>))"
      and wf: "store_wf (store (s\<lparr>timers := xs @ ys\<rparr>))" and ok: "action_ok (act_body ?a)"
      and ri: "req_inv (s\<lparr>timers := xs @ ys\<rparr>)"
      using w i by (simp_all add: req_inv_def req_ids_def)
    from srv_dispatch_keeps [OF timer(2) wf ok si w' ri] e show ?thesis by simp
  next
    case (exists_done xs i v sl ys n)
    from srv_run_effects_keeps [OF exists_done(2)] i w show ?thesis
      by (simp add: exists_cb_ok callbacks_no_clone req_inv_def req_ids_def)
  next
    case (git_exit xs i v c ys d' code files n)
    from srv_run_effects_keeps [OF git_exit(3)] i w show ?thesis
      by (simp add: reportStatus_ok callbacks_no_clone req_inv_def req_ids_def)
  next
    case (list_done xs i v sl ys res n)
    from srv_run_effects_keeps [OF list_done(3)] i w show ?thesis
      by (simp add: files_cb_ok callbacks_no_clone req_inv_def req_ids_def)
  next
    case (sweep_done xs keys ys res n)
    from srv_run_effects_keeps [OF sweep_done(3)] i w show ?thesis
      by (simp add: sweep_cb_ok callbacks_no_clone req_inv_def req_ids_def)
  next
    case (rimraf_done xs p ys d')
    with w show ?thesis by simp
  qed
  with assms(4) show ?thesis by (simp add: stuck_def)
qed

subsection \<open>Runs without a new \<^verbatim>\<open>POST\<close>\<close>

lemma waiting_unanswered:
  assumes "req_inv s" and "w \<in> set (waiters s)"
  shows "w_req w \<notin> set (map fst (responses s))"
proof -
  have "distinct (map w_req (waiters s) @ map fst (responses s))"
    using assms(1) by (simp add: req_inv_def req_ids_def)
  moreover have "w_req w \<in> set (map w_req (waiters s))" using assms(2) by simp
  ultimately show ?thesis by (simp only: distinct_append) blast
qed

lemma stuck_run:
  assumes "(\<lambda>s s'. srv_step cfg g s s' \<and> no_post j u s')\<^sup>*\<^sup>* s s'"
    and "srv_reach cfg g s" and "stuck r j u s"
  shows "srv_reach cfg g s' \<and> stuck r j u s' \<and> r \<notin> set (map fst (responses s'))"
proof -
  from assms have "srv_reach cfg g s' \<and> stuck r j u s'"
  proof (induction rule: rtranclp_induct)
    case (step y z)
    then have r: "srv_reach cfg g y" and st: "stuck r j u y" by simp_all
    have z: "srv_step cfg g y z" "no_post j u z" using step.hyps(2) by simp_all
    have "srv_reach cfg g z" by (rule srv_reach.step [OF r z(1)])
    moreover have "stuck r j u z" by (rule stuck_step [OF z(1) srv_reach_invs [OF r] st z(2)])
    ultimately show ?case by simp
  qed simp
  moreover have "req_inv s'" if "srv_reach cfg g s'"
    using srv_reach_invs [OF that] by (simp add: srv_invs_def srv_inv_def)
  ultimately show ?thesis
    using waiting_unanswered [of s' "\<lparr>w_req = r, w_sid = j, w_url = u\<rparr>"] by (simp add: stuck_def)
qed

text \<open>
  The hang happens: a first visit posts \<open>u\<close>, the listener subscribes and the clone is
  started, then the session's removal timer fires before the clone is done.
\<close>

lemma stuck_state_exists:
  assumes "g u"
  shows "\<exists>s. srv_reach cfg g s \<and> stuck 0 ''s1'' u s"
proof -
  obtain S1 t where r1: "srv_reach cfg g S1" and f1: "timers S1 = [(0, None)] @ (t, Some ''s1'') # []"
    "posts S1 = [] @ (0, Some ''s1'', u) # []"
    and st1: "store S1 = store_reduce initial_state \<lparr>act_session_id = Some ''s1'', act_body = SetTimeout t\<rparr>"
    using first_post_reachable by blast
  have i1: "srv_invs S1" by (rule srv_reach_invs [OF r1])
  let ?w = "\<lparr>w_req = 0, w_sid = ''s1'', w_url = u\<rparr>"
  let ?S1' = "S1\<lparr>posts := [] @ [], waiters := waiters S1 @ [?w]\<rparr>"
  let ?a = "\<lparr>act_session_id = Some ''s1'', act_body = StartClone u\<rparr>"
  have wf1: "store_wf (store ?S1')" and ok: "action_ok (act_body ?a)" using i1 by (simp_all add: srv_invs_def)
  obtain S2 where d2: "srv_dispatch (Suc 0) cfg ?S1' ?a = Some S2"
    using srv_dispatch_some [OF wf1] by fastforce
  have "post_handler (Suc 0) cfg g 0 (Some ''s1'') u (S1\<lparr>posts := [] @ []\<rparr>) = Some S2"
    using d2 assms by (simp add: post_handler_def)
  then have r2: "srv_reach cfg g S2" by (rule srv_reach.step [OF r1 srv_step.post [OF f1(2)]])
  have si2: "silent (store_entry (store_reduce (store ?S1') ?a) ''s1'' u)"
    using st1 by (simp add: store_entry_def store_reduce_def initial_state_def empty_session_def
        store_setTimeout_def store_startClone_def start_entry_def silent_def imap_simps)
  have w1: "?w \<in> set (waiters ?S1')" by simp
  have ri1: "req_inv ?S1'" using req_inv_subscribe [OF _ f1(2)] i1 by (simp add: srv_invs_def srv_inv_def)
  have k2: "?w \<in> set (waiters S2)" "posts S2 = []"
    using srv_dispatch_keeps [OF d2 wf1 ok si2 w1 ri1] by simp_all
  have t2: "timers S2 = [(0, None)] @ (t, Some ''s1'') # []"
    using srv_dispatch_frame [OF d2 wf1 ok] f1(1) by simp
  let ?S2' = "S2\<lparr>timers := [(0, None)] @ []\<rparr>"
  let ?b = "\<lparr>act_session_id = Some ''s1'', act_body = RemoveSession None\<rparr>"
  have wf2: "store_wf (store ?S2')" and ok2: "action_ok (act_body ?b)" using srv_reach_wf [OF r2] by simp_all
  obtain S3 where d3: "srv_dispatch (Suc 0) cfg ?S2' ?b = Some S3"
    using srv_dispatch_some [OF wf2] by fastforce
  have r3: "srv_reach cfg g S3" by (rule srv_reach.step [OF r2 srv_step.timer [OF t2 d3]])
  have e3: "store_entry (store_reduce (store ?S2') ?b) ''s1'' u = None" by (simp add: store_entry_reduce)
  then have si3: "silent (store_entry (store_reduce (store ?S2') ?b) ''s1'' u)" by (simp add: silent_def)
  have w2: "?w \<in> set (waiters ?S2')" using k2(1) by simp
  have ri2: "req_inv ?S2'" using srv_reach_invs [OF r2]
    by (simp add: srv_invs_def srv_inv_def req_inv_def req_ids_def)
  have "?w \<in> set (waiters S3)" "store S3 = store_reduce (store ?S2') ?b" "posts S3 = []"
    using srv_dispatch_keeps [OF d3 wf2 ok2 si3 w2 ri2] k2(2) by simp_all
  with e3 r3 show ?thesis by (intro exI [of _ S3]) (simp add: stuck_def no_post_def)
qed

subsection \<open>Properties\<close>

text \<open>
  C5. A request whose listener waits on an absent entry is never answered: along every run
  of the server in which no \<^verbatim>\<open>POST\<close> of the same URL for the same session is queued,
  the listener stays subscribed, the entry stays absent, and the request gets no response.
\<close>

theorem request_never_answered:
  assumes "srv_reach cfg g s" and "stuck r j u s"
    and "(\<lambda>s s'. srv_step cfg g s s' \<and> no_post j u s')\<^sup>*\<^sup>* s s'"
  shows "stuck r j u s' \<and> r \<notin> set (map fst (responses s'))"
  using stuck_run [OF assms(3,1,2)] by simp

theorem request_never_answered_witness:
  "\<exists>s. srv_reach example_cfg (\<lambda>_. True) s \<and> stuck 0 ''s1'' ''u'' s \<and>
       (\<lambda>s s'. srv_step example_cfg (\<lambda>_. True) s s' \<and> no_post ''s1'' ''u'' s')\<^sup>*\<^sup>* s (s\<lparr>hits := []\<rparr>) \<and>
       stuck 0 ''s1'' ''u'' (s\<lparr>hits := []\<rparr>) \<and> 0 \<notin> set (map fst (responses (s\<lparr>hits := []\<rparr>)))"
proof -
  obtain s where r: "srv_reach example_cfg (\<lambda>_. True) s" and st: "stuck 0 ''s1'' ''u'' s"
    using stuck_state_exists [of "\<lambda>_. True" "''u''" example_cfg] by auto
  have "srv_step example_cfg (\<lambda>_. True) s (s\<lparr>hits := []\<rparr>)" by (rule srv_step.limiter_reset)
  moreover have "no_post ''s1'' ''u'' (s\<lparr>hits := []\<rparr>)" using st by (simp add: stuck_def no_post_def)
  ultimately have run: "(\<lambda>s s'. srv_step example_cfg (\<lambda>_. True) s s' \<and> no_post ''s1'' ''u'' s')\<^sup>*\<^sup>*
      s (s\<lparr>hits := []\<rparr>)" by (intro r_into_rtranclp) simp
  from request_never_answered [OF r st run] r st run show ?thesis by blast
qed

text \<open>
  C15. \<^verbatim>\<open>POST /\<close> can hang for good: a reachable state has the listener of the first
  request of session \<^verbatim>\<open>s1\<close> waiting on an absent entry (its removal timer fired while
  the clone ran), and no run without a new \<^verbatim>\<open>POST\<close> of that URL for that session ever
  answers it. The listener returns without unsubscribing when the session is missing.
\<close>

theorem post_never_answered:
  assumes "g u"
  shows "\<exists>s. srv_reach cfg g s \<and> stuck 0 ''s1'' u s \<and>
             (\<forall>s'. (\<lambda>s s'. srv_step cfg g s s' \<and> no_post ''s1'' u s')\<^sup>*\<^sup>* s s' \<longrightarrow>
                   0 \<notin> set (map fst (responses s')))"
proof -
  obtain s where r: "srv_reach cfg g s" and st: "stuck 0 ''s1'' u s"
    using stuck_state_exists [of g u cfg, OF assms] by blast
  with stuck_run [OF _ r st] show ?thesis by blast
qed

theorem post_never_answered_witness:
  "(\<lambda>_. True) ''u'' \<and> (\<exists>s. srv_reach example_cfg (\<lambda>_. True) s \<and> stuck 0 ''s1'' ''u'' s)"
  using post_never_answered [of "\<lambda>_. True" "''u''" example_cfg] by blast

end
