(* ===== verification/Server_Responses.thy ===== *)
theory Server_Responses
  imports Server
begin

text \<open>
  What the client of \<^verbatim>\<open>POST /\<close> receives (\<^verbatim>\<open>src/lib/app.js\<close>): the answer to a
  URL whose clone failed, and the file URLs of a \<^verbatim>\<open>done\<close> answer, resolved through the
  \<^verbatim>\<open>/files\<close> route back to the files the lister of
  \<^verbatim>\<open>src/src/handle_changes.js\<close> reported.
\<close>

text \<open>
  How a file URL of a response reaches the disk: express strips the query and the
  fragment, the \<^verbatim>\<open>/files\<close> mount strips its prefix, and \<^verbatim>\<open>serve-static\<close> joins
  the remaining segments to \<^verbatim>\<open>SESSION_DIR/<id>\<close>. Percent-decoding is not
  modelled, so names with \<^verbatim>\<open>%\<close> are left out of \<open>plain_segments\<close> with the
  separators.
\<close>

function split_path :: "string \<Rightarrow> path" where
  "split_path s =
     (if CHR ''/'' \<in> set s
      then takeWhile (\<lambda>c. c \<noteq> CHR ''/'') s # split_path (tl (dropWhile (\<lambda>c. c \<noteq> CHR ''/'') s))
      else [s])"
  by pat_completeness auto
termination
proof (relation "measure length")
  fix s :: string
  assume "CHR ''/'' \<in> set s"
  then have "dropWhile (\<lambda>c. c \<noteq> CHR ''/'') s \<noteq> []" by (simp add: dropWhile_eq_Nil_conv)
  then show "(tl (dropWhile (\<lambda>c. c \<noteq> CHR ''/'') s), s) \<in> measure length"
    using length_dropWhile_le [of "\<lambda>c. c \<noteq> CHR ''/''" s] by (cases "dropWhile (\<lambda>c. c \<noteq> CHR ''/'') s") auto
qed simp

definition url_path :: "string \<Rightarrow> string" where
  "url_path url = takeWhile (\<lambda>c. c \<noteq> CHR ''?'' \<and> c \<noteq> CHR ''#'') url"

definition resolve_file :: "config \<Rightarrow> sid \<Rightarrow> string \<Rightarrow> path option" where
  "resolve_file cfg i url =
     (let p = url_path url
      in if take 7 p = ''/files/'' then Some (session_data cfg @ [i] @ split_path (drop 7 p)) else None)"

definition plain_segments :: "path \<Rightarrow> bool" where
  "plain_segments p \<longleftrightarrow> list_all (\<lambda>seg. list_all (\<lambda>c. c \<notin> {CHR ''/'', CHR ''?'', CHR ''#'', CHR ''%''}) seg) p"

lemma split_render:
  "list_all (\<lambda>seg. CHR ''/'' \<notin> set seg) p \<Longrightarrow> p \<noteq> [] \<Longrightarrow> split_path (render_path p) = p"
proof (induction p rule: render_path.induct)
  case (2 x)
  then show ?case by simp
next
  case (3 x y ys)
  have tw: "takeWhile (\<lambda>c. c \<noteq> CHR ''/'') (x @ ''/'' @ r) = x" and
       dw: "tl (dropWhile (\<lambda>c. c \<noteq> CHR ''/'') (x @ ''/'' @ r)) = r" for r
    using "3.prems"(1) by (simp_all add: takeWhile_append dropWhile_append)
  from "3.prems" "3.IH" tw [of "render_path (y # ys)"] dw [of "render_path (y # ys)"] show ?case
    by (subst split_path.simps) simp
qed simp





lemma render_no_char:
  "c \<noteq> CHR ''/'' \<Longrightarrow> list_all (\<lambda>seg. c \<notin> set seg) p \<Longrightarrow> c \<notin> set (render_path p)"
  by (induction p rule: render_path.induct) auto

lemma notify_snoc:
  "notify (ws @ [w]) s = (case notify ws s of None \<Rightarrow> None | Some s1 \<Rightarrow> waiter_cb w s1)"
  by (induction ws arbitrary: s) (simp_all split: option.splits)

lemma notify_store: "notify ws s = Some s' \<Longrightarrow> store s' = store s"
  by (subst notify_frame) simp_all

lemma store_reduce_failed_noop:
  assumes "store_status st j u = Some Failed"
  shows "store_reduce st \<lparr>act_session_id = Some j, act_body = StartClone u\<rparr> = st"
proof -
  from assms obtain se r where se: "imap_get (sessions st) j = Some se"
    and r: "imap_get (repos se) u = Some r" and f: "repo_status r = Failed"
    by (auto simp: store_status_def store_entry_def split: option.splits)
  have "store_startClone se u = se" using r f by (simp add: store_startClone_def)
  with se show ?thesis
    by (cases st) (simp add: store_reduce_def imap_set_same)
qed

lemma list_all_char:
  "list_all (\<lambda>seg. list_all (\<lambda>c. c \<notin> A) seg) p \<Longrightarrow> x \<in> A \<Longrightarrow> list_all (\<lambda>seg. x \<notin> set seg) p"
  by (induction p) (auto simp: list_all_iff)

lemma resolve_listed:
  assumes "p \<in> set (glob_tree f (toFolder cfg i sl))" and "plain_segments p"
  shows "resolve_file cfg i (''/files/'' @ render_path (drop (length (session_data cfg @ [i])) p)) = Some p"
proof -
  from assms(1) obtain rest where p: "p = session_data cfg @ [i, sl] @ rest" and ne: "rest \<noteq> []"
    by (auto simp: glob_tree_def toFolder_def prefix_def)
  let ?r = "sl # rest"
  have d: "drop (length (session_data cfg @ [i])) p = ?r" using p by simp
  have seg: "list_all (\<lambda>seg. list_all (\<lambda>c. c \<notin> {CHR ''/'', CHR ''?'', CHR ''#'', CHR ''%''}) seg) ?r"
    using assms(2) p by (simp add: plain_segments_def)
  have q: "CHR ''?'' \<notin> set (render_path ?r)"
    by (rule render_no_char [OF _ list_all_char [OF seg]]) simp_all
  have h: "CHR ''#'' \<notin> set (render_path ?r)"
    by (rule render_no_char [OF _ list_all_char [OF seg]]) simp_all
  have sp: "split_path (render_path ?r) = ?r"
    by (rule split_render [OF list_all_char [OF seg]]) simp_all
  have "url_path (''/files/'' @ render_path ?r) = ''/files/'' @ render_path ?r"
    using q h by (simp add: url_path_def takeWhile_eq_all_conv) blast
  with sp d p show ?thesis by (simp add: resolve_file_def)
qed

subsection \<open>Properties of the responses\<close>

text \<open>
  C37. \<^verbatim>\<open>POST /\<close> of a URL whose clone failed in the session does not clone
  again: \<^verbatim>\<open>startClone\<close> leaves the store as it is, and the response listener, called
  in the same dispatch, answers \<^verbatim>\<open>clone failed\<close> at once. A failed URL stays failed
  for the life of the session.
\<close>

theorem post_failed_answers_at_once:
  assumes "store_wf (store s)" and "store_status (store s) j u = Some Failed" and "g u"
  shows "\<exists>s'. post_handler (Suc n) cfg g q (Some j) u s = Some s' \<and> store s' = store s \<and>
              (q, RError ''clone failed'') \<in> set (responses s')"
proof -
  define w where "w = \<lparr>w_req = q, w_sid = j, w_url = u\<rparr>"
  define a where "a = \<lparr>act_session_id = Some j, act_body = StartClone u\<rparr>"
  let ?S = "s\<lparr>waiters := waiters s @ [w]\<rparr>"
  have wf: "store_wf (store ?S)" using assms(1) by simp
  obtain s' where d: "srv_dispatch (Suc n) cfg ?S a = Some s'"
    using srv_dispatch_some [OF wf] by (fastforce simp: a_def)
  have st: "store_reduce (store s) a = store s"
    using store_reduce_failed_noop [OF assms(2)] by (simp add: a_def)
  from srv_dispatch_wf [OF d wf] a_def obtain ts where
    n: "notify (waiters ?S) (?S\<lparr>store := store_reduce (store ?S) a, tasks := tasks ?S @ ts,
          prev := store_reduce (store ?S) a\<rparr>) = Some s'"
    by auto
  define X where "X = ?S\<lparr>store := store_reduce (store ?S) a, tasks := tasks ?S @ ts,
          prev := store_reduce (store ?S) a\<rparr>"
  have n': "notify (waiters s @ [w]) X = Some s'" using n by (simp add: X_def)
  then obtain s1 where n1: "notify (waiters s) X = Some s1" and w1: "waiter_cb w s1 = Some s'"
    by (auto simp: notify_snoc split: option.splits)
  have s1: "store s1 = store s" using notify_store [OF n1] st by (simp add: X_def)
  from assms(2) obtain se r where se: "imap_get (sessions (store s)) j = Some se"
    and r: "imap_get (repos se) u = Some r" and f: "repo_status r = Failed"
    by (auto simp: store_status_def store_entry_def split: option.splits)
  have "s' = unsubscribe q (respond q (RError ''clone failed'') s1)"
    using w1 s1 se r f by (simp add: waiter_cb_def w_def)
  moreover have "post_handler (Suc n) cfg g q (Some j) u s = Some s'"
    using d assms(3) by (simp add: post_handler_def w_def a_def)
  ultimately show ?thesis
    using s1 by (simp add: unsubscribe_def respond_def)
qed

theorem post_failed_answers_at_once_witness:
  "store_wf \<lparr>sessions = [(''s1'', \<lparr>repos = [(''u'', \<lparr>repo_status = Failed, repo_slug = None, repo_files = None\<rparr>)],
                                  timeout = None\<rparr>)]\<rparr> \<and>
   (\<exists>s'. post_handler (Suc 0) example_cfg (\<lambda>_. True) 0 (Some ''s1'') ''u''
          ((srv_init example_cfg)\<lparr>store := \<lparr>sessions = [(''s1'', \<lparr>repos = [(''u'', \<lparr>repo_status = Failed,
             repo_slug = None, repo_files = None\<rparr>)], timeout = None\<rparr>)]\<rparr>\<rparr>) = Some s' \<and>
        store s' = \<lparr>sessions = [(''s1'', \<lparr>repos = [(''u'', \<lparr>repo_status = Failed, repo_slug = None,
             repo_files = None\<rparr>)], timeout = None\<rparr>)]\<rparr> \<and>
        (0, RError ''clone failed'') \<in> set (responses s'))"
proof -
  let ?st = "\<lparr>sessions = [(''s1'', \<lparr>repos = [(''u'', \<lparr>repo_status = Failed, repo_slug = None, repo_files = None\<rparr>)],
                                  timeout = None\<rparr>)]\<rparr>"
  let ?s = "(srv_init example_cfg)\<lparr>store := ?st\<rparr>"
  have h1: "store_wf (store ?s)"
    by (simp add: store_wf_def session_wf_def repo_wf_def imap_all_def)
  have h2: "store_status (store ?s) ''s1'' ''u'' = Some Failed"
    by (simp add: store_status_def store_entry_def)
  have h3: "(\<lambda>_. True) ''u''" by simp
  from h1 post_failed_answers_at_once [OF h1 h2 h3, where n = 0 and q = 0 and cfg = example_cfg]
  show ?thesis by simp
qed

text \<open>
  C38. Round trip of the file list: for files the lister reports whose names carry no
  \<^verbatim>\<open>/\<close>, \<^verbatim>\<open>?\<close>, \<^verbatim>\<open>#\<close> or \<^verbatim>\<open>%\<close>, every URL \<^verbatim>\<open>/files/<path>\<close> of the
  \<^verbatim>\<open>done\<close> response resolves, through the \<^verbatim>\<open>/files\<close> route of the same session, to
  the file that was listed: \<^verbatim>\<open>path.relative\<close> in the lister and
  \<^verbatim>\<open>path.join(SESSION_DIR, id)\<close> in the route undo each other.
\<close>

theorem files_url_roundtrip:
  assumes "set ps \<subseteq> set (glob_tree f (toFolder cfg i sl))" and "list_all plain_segments ps"
  shows "\<exists>fs. files_cb cfg i u (Inr ps) = [setRepoStatus i u Done None (Some fs)] \<and>
              map (\<lambda>x. resolve_file cfg i (''/files/'' @ x)) fs = map Some ps"
proof -
  define fs where "fs = map (\<lambda>p. render_path (drop (length (session_data cfg @ [i])) p)) ps"
  have all: "\<forall>p \<in> set ps. resolve_file cfg i (''/files/'' @ render_path (drop (length (session_data cfg @ [i])) p)) = Some p"
  proof
    fix p assume "p \<in> set ps"
    with assms have "p \<in> set (glob_tree f (toFolder cfg i sl))" and "plain_segments p"
      by (auto simp: list_all_iff)
    then show "resolve_file cfg i (''/files/'' @ render_path (drop (length (session_data cfg @ [i])) p)) = Some p"
      by (rule resolve_listed)
  qed
  have "map (\<lambda>x. resolve_file cfg i (''/files/'' @ x)) fs = map Some ps"
    unfolding fs_def map_map comp_def using all by (simp only: map_eq_conv)
  moreover have "files_cb cfg i u (Inr ps) = [setRepoStatus i u Done None (Some fs)]"
    by (simp add: files_cb_def fs_def)
  ultimately show ?thesis by blast
qed

theorem files_url_roundtrip_witness:
  "set [[''data'', ''s1'', ''a1b2c3d'', ''README.md'']] \<subseteq>
     set (glob_tree \<lparr>fs_files = [[''data'', ''s1'', ''a1b2c3d'', ''README.md'']], fs_dirs = []\<rparr>
            (toFolder example_cfg ''s1'' ''a1b2c3d'')) \<and>
   list_all plain_segments [[''data'', ''s1'', ''a1b2c3d'', ''README.md'']] \<and>
   (\<exists>fs. files_cb example_cfg ''s1'' ''u'' (Inr [[''data'', ''s1'', ''a1b2c3d'', ''README.md'']]) =
          [setRepoStatus ''s1'' ''u'' Done None (Some fs)] \<and>
        map (\<lambda>x. resolve_file example_cfg ''s1'' (''/files/'' @ x)) fs = map Some [[''data'', ''s1'', ''a1b2c3d'', ''README.md'']])"
proof -
  have h1: "set [[''data'', ''s1'', ''a1b2c3d'', ''README.md'']] \<subseteq>
     set (glob_tree \<lparr>fs_files = [[''data'', ''s1'', ''a1b2c3d'', ''README.md'']], fs_dirs = []\<rparr>
            (toFolder example_cfg ''s1'' ''a1b2c3d''))"
    by (simp add: glob_tree_def toFolder_def example_cfg_def)
  have h2: "list_all plain_segments [[''data'', ''s1'', ''a1b2c3d'', ''README.md'']]"
    by (simp add: plain_segments_def)
  from h1 h2 files_url_roundtrip [OF h1 h2, of "''u''"] show ?thesis by blast
qed



end
