(* ===== verification/Spec2Isabelle.thy ===== *)
theory Spec2Isabelle
  imports Reducer_Lib Slug_Invariant Server_Limiter Server_Stuck Server_Responses
begin

text \<open>
  Verification development of kasbah/clone-serve: a server that clones a git
  repository per browser session and serves its file tree.

  \<^bold>\<open>The program.\<close> A redux store holds \<^verbatim>\<open>Immutable.Map({sessions})\<close>; every
  request dispatches actions (\<^verbatim>\<open>setTimeout\<close> from the session middleware,
  \<^verbatim>\<open>startClone\<close> from \<^verbatim>\<open>POST /\<close>, \<^verbatim>\<open>removeSession\<close> when a session's timer
  fires) through a pure reducer; a listener (\<^verbatim>\<open>handle_changes.js\<close>) diffs each new
  snapshot against the previous one and, for every changed session, starts a clone
  for each repository in status \<^verbatim>\<open>start\<close> and lists the files of each repository
  in \<^verbatim>\<open>clone_done\<close>; the callbacks of those asynchronous operations dispatch
  \<^verbatim>\<open>setRepoStatus\<close>; a sweep deletes session folders whose session is gone.

  \<^bold>\<open>Theories.\<close>
  \<^item> \<open>Prelude\<close>: \<^verbatim>\<open>Immutable.Map\<close> as an association list with distinct keys
    (\<open>imap\<close>: \<^verbatim>\<open>get\<close>/\<^verbatim>\<open>set\<close>/\<^verbatim>\<open>delete\<close> are \<open>map_of\<close>,
    \<open>AList.update\<close>, \<open>AList.delete\<close>; \<open>imap_equals_by\<close> is \<^verbatim>\<open>equals\<close>, shown to be
    equality of lookups on well-formed maps), the status enumeration, and the fold by
    which the sources dispatch an action to a reducer table (\<open>dispatch_fold\<close>) with
    its equivalence to a lookup when the names are distinct.
  \<^item> \<open>Reducer_Src\<close>: \<^verbatim>\<open>src/src/reducers.js\<close> (\<open>src_startClone\<close>,
    \<open>src_registerStarted\<close>, \<open>src_removeSession\<close>, \<open>src_reduceSessions\<close>,
    \<open>src_reduceState\<close>, \<open>src_mainReducer\<close>). An abstract specification
    (\<open>src_spec\<close>) views a state through \<open>src_abs\<close> as a partial function from
    session ids to partial functions from keys to statuses. Lemmas: \<open>mainReducer\<close>
    refines it on every state and action (C1), the status table of
    \<^verbatim>\<open>startClone\<close>/\<^verbatim>\<open>registerStarted\<close> (C2, C4), idempotence of
    re-submission (C3), session removal with and without a value or session id (C6,
    C8), and, through the refinement, that from the initial state (\<open>src_run\<close>) only
    \<^verbatim>\<open>start\<close> and \<^verbatim>\<open>in_progress\<close> are ever stored (C7).
  \<^item> \<open>Reducer_Lib\<close>: \<^verbatim>\<open>src/lib/reducers.js\<close>, the compiled reducer, whose
    \<^verbatim>\<open>startClone\<close> mutates the session object with \<^verbatim>\<open>Object.assign\<close>. Sessions
    are addresses into an explicit heap (\<open>lib_heap\<close>, allocation by \<open>lib_alloc\<close>);
    \<open>lib_read\<close> reads a state through a heap as a value of \<open>Reducer_Src\<close>. Lemmas: a
    previous snapshot changes under a later \<^verbatim>\<open>startClone\<close> (C9), refinement of the
    Flow reducer when sessions do not alias (C10), and preservation of that
    non-aliasing invariant (C11).
  \<^item> \<open>Store\<close>: the reducer over repository entries \<^verbatim>\<open>{status, slug, files}\<close> and
    the session timer that the reactor and \<^verbatim>\<open>app.js\<close> read (\<open>store_reduce\<close>,
    \<open>session_reduce\<close>). \<^verbatim>\<open>startClone\<close> and \<^verbatim>\<open>removeSession\<close> follow
    \<^verbatim>\<open>reducers.js\<close>; \<^verbatim>\<open>setRepoStatus\<close> (\<open>repo_transition\<close>) and
    \<^verbatim>\<open>setTimeout\<close> live in \<^verbatim>\<open>actions.js\<close>, absent from the sources, and are
    modelled from the spec's transition table. Lemmas: every status change is a legal
    transition and an entry disappears only by the removal of its session (C12), entry
    well-formedness (C13), idempotence of \<^verbatim>\<open>startClone\<close> (C14), the lookups
    after \<^verbatim>\<open>removeSession\<close> (C16), and the success path of spec section 8 for
    every session, URL, slug and file list (\<open>happy_path\<close>, C18).
  \<^item> \<open>Reactor\<close>: \<^verbatim>\<open>src/src/handle_changes.js\<close>. Each synchronous piece returns the
    effects it performs in program order, a \<open>Dispatch\<close> or the \<open>Spawn\<close> of an
    asynchronous operation: \<open>handleChanges\<close> (diff against the previous snapshot),
    \<open>handleSessionChanges\<close>, \<open>startClone\<close> and its \<^verbatim>\<open>fs.exists\<close> callback
    \<open>exists_cb\<close> (fetch or clone), \<open>reportStatus\<close> (git exit code), \<open>getFiles\<close> and
    \<open>files_cb\<close> (the glob of a checkout, \<open>glob_tree\<close>), \<open>removeUnusedFiles\<close> and
    \<open>sweep_cb\<close> (the garbage collector). Lemmas: no effect on an unchanged state
    (C20), exactly when a clone is started (C21), no dispatch from the listener itself
    on a well-formed state (C22), relative file paths (C23), the sweep spares the keys
    it captured (C24).
  \<^item> \<open>System\<close>: the running program. \<open>dispatch\<close>/\<open>run_effects\<close> are redux's
    dispatch with the listener run synchronously, nested dispatches to completion, and
    \<^verbatim>\<open>prev_state\<close> set by the listener on return; \<open>sys_step\<close> is one turn of the
    event loop (a request of \<^verbatim>\<open>app.js\<close>, or the completion of any pending
    operation with an outcome the environment chooses); \<open>reach\<close> is reachability.
    Lemmas: the store stays well-formed in every reachable state (C25, by rule
    induction), a dispatch returns with one level of fuel (C26), every pending
    operation completes with either outcome (\<open>complete\<close>), its callback
    returning with one level of fuel, as an event-loop step that consumes it (C27), and two interleavings: a second request before the
    \<^verbatim>\<open>fs.exists\<close> callback starts a second clone of the same URL into the same
    folder (C28), and a session removed and re-created before the sweep's glob returns
    has its folder scheduled for deletion (C29).

  \<^item> \<open>Slug_Invariant\<close>: every slug the store records, and every slug of a pending
    \<^verbatim>\<open>fs.exists\<close>, git process or file listing, is the hash of its URL, so the
    runner writes the folder the lister reads (C40, by rule induction over the event loop).
  \<^item> \<open>Server\<close>: \<^verbatim>\<open>src/lib/app.js\<close> around the event loop. The state \<open>srv\<close>
    extends \<open>sys\<close> (a record extension) with the pending Node timers of
    \<open>setRemovalTimeout\<close>, the response listeners that \<open>post_handler\<close> subscribes
    (\<open>waiter_cb\<close>), the \<^verbatim>\<open>POST\<close> bodies being parsed and the responses sent.
    \<open>srv_dispatch\<close> notifies the change reactor and then the listeners of the
    snapshot taken when the dispatch began; \<open>handle_request\<close> is the session
    middlewares, the rate limiter of \<^verbatim>\<open>POST /\<close> (\<open>rate_limit\<close>, the memory
    store of \<^verbatim>\<open>express-rate-limit\<close> keyed by \<open>req_ip\<close>) and the route
    (\<open>route_request\<close>); \<open>srv_step\<close> adds timer expiry, the reset of the limiter's
    counts and the completion of a body. Lemmas: every server step is a sequence of \<open>sys_step\<close>s of the state with the
    extension truncated, so the reachable states refine those of \<open>System\<close> (C30);
    each request is answered at most once (C31); the null-session branch of
    \<^verbatim>\<open>POST /\<close> is dead (C32); no subscriber throws and one level of fuel suffices
    (C33).
  \<^item> \<open>Server_Timers\<close>: the removal timers. A session's recorded \<^verbatim>\<open>timeout\<close> is
    exactly its pending timer and handles are distinct (C34); a session can outlive its
    timer when it fires while the body of its \<^verbatim>\<open>POST\<close> is parsed (C35); every request
    returns (C36).
  \<^item> \<open>Server_Limiter\<close>: sequences of requests (\<open>serve_requests\<close>). Within one
    window of the limiter, the requests of one address put at most
    \<^verbatim>\<open>MAX_CLONES_PER_IP\<close> bodies through to the \<^verbatim>\<open>POST /\<close> handler (C17);
    with \<^verbatim>\<open>TRUST_PROXY\<close> the address is the client's \<^verbatim>\<open>X-Forwarded-For\<close>, so
    one client gets any number through (C19).
  \<^item> \<open>Server_Stuck\<close>: requests never answered. The \<^verbatim>\<open>POST /\<close> listener
    returns without unsubscribing when the session or the entry is missing, and only it
    answers the request. \<open>stuck\<close> (a listener waiting on an absent entry, no body of
    that URL and session queued) is kept by every step that queues no such body, since
    only \<^verbatim>\<open>startClone\<close> creates an entry and the reactor's callbacks only
    dispatch \<^verbatim>\<open>setRepoStatus\<close> (C5). It is reached when a session's removal timer
    fires while its clone runs, and the request then never gets a response (C15).
  \<^item> \<open>Server_Responses\<close>: a URL whose clone failed is answered
    \<^verbatim>\<open>clone failed\<close> at once and never cloned again (C37); the file URLs of a
    \<^verbatim>\<open>done\<close> answer resolve through the \<^verbatim>\<open>/files\<close> route to the listed files
    (C38), and, since they are not encoded, never all do when a listed path has a
    segment with \<^verbatim>\<open>?\<close> or \<^verbatim>\<open>#\<close> (C39).

  \<^bold>\<open>Fuel.\<close> \<open>dispatch\<close> and \<open>srv_dispatch\<close> take the nesting depth of
  dispatches as fuel, \<open>None\<close> when it runs out (\<open>srv_dispatch\<close> also returns
  \<open>None\<close> when a listener throws). The step relations quantify over it, and C26, C33
  and C36 show one level suffices from a well-formed store: \<open>handleChanges\<close>
  dispatches only from \<^verbatim>\<open>getFiles\<close> on a \<^verbatim>\<open>clone_done\<close> entry without a slug,
  which well-formedness excludes (C22), and the callbacks' dispatches run at the top of
  the event loop.

  \<^bold>\<open>Not modelled.\<close> The CORS middleware of \<^verbatim>\<open>app.js\<close> (it only sets response
  headers), the static and index middlewares (they only read files), cookie signing, the
  timing of the limiter's window (its reset is a step the environment may take at any
  time) and the rate-limit headers; percent-decoding of URLs (names with \<^verbatim>\<open>%\<close> are outside C38);
  git itself and the filesystem beyond what the reactor observes (existence of a folder,
  the files of a checkout). SHA-1, \<^verbatim>\<open>is-git-url\<close> and \<^verbatim>\<open>shortid\<close> are
  parameters or environment choices; \<^verbatim>\<open>SESSION_DIR\<close> of \<^verbatim>\<open>app.js\<close> is taken to be
  the session data root of \<^verbatim>\<open>handle_changes.js\<close>.

  \<^bold>\<open>Left out on purpose.\<close> The compiled reducer of \<^verbatim>\<open>src/lib/reducers.js\<close>
  is not run inside the event loop. Its companions \<^verbatim>\<open>lib/actions.js\<close> and
  \<^verbatim>\<open>lib/handle_changes.js\<close> are not in the sources, and it has no
  \<^verbatim>\<open>setRepoStatus\<close> or \<^verbatim>\<open>setTimeout\<close> reducer, which \<^verbatim>\<open>app.js\<close> and the
  reactor call, so such a composition would model a program the repository does not
  contain. Its in-place mutation is shown at the reducer level (C9). Percent-decoding
  of \<^verbatim>\<open>/files\<close> URLs belongs to \<^verbatim>\<open>serve-static\<close> and is left out.
\<close>

end
